theory Spec2Isabelle
  imports Main "HOL-Library.AList"
begin

section \<open>Go string primitives used by package dnslookup\<close>

text \<open>
  A Go string is modelled as a \<^typ>\<open>string\<close> of bytes.  \<open>strings.Split\<close>,
  \<open>strings.Join\<close>, \<open>strings.Index\<close>, \<open>strings.Trim\<close> with the cutset \<open>", "\<close> and
  \<open>strings.HasPrefix\<close> work on bytes in Go as they do here, for every string.
  \<open>strings.ToLower\<close> and \<open>strings.TrimSpace\<close> decode their argument as UTF-8: they
  are modelled as they behave on ASCII text, where \<open>ToLower\<close> maps the letters A-Z to
  a-z and \<open>TrimSpace\<close> strips the six ASCII white-space bytes.  On a string with a
  byte outside ASCII the two definitions are not the Go functions (Go lowers
  U+212A to \<open>k\<close> and strips U+00A0), so a statement that depends on what they return
  is made for ASCII strings only.  Separators are always one byte long in the source
  (\<open>"."\<close> and \<open>"!"\<close>), so \<open>Split\<close> and \<open>Index\<close> take a single character.
\<close>

definition lower_char :: "char \<Rightarrow> char" where
  "lower_char c =
     (case map_of (zip ''ABCDEFGHIJKLMNOPQRSTUVWXYZ'' ''abcdefghijklmnopqrstuvwxyz'') c of
        None \<Rightarrow> c
      | Some l \<Rightarrow> l)"

definition ToLower :: "string \<Rightarrow> string" where
  "ToLower s = map lower_char s"

text \<open>
  \<open>strings.Split(s, sep)\<close>: the pieces between the separators.  The result is never
  empty, so the first branch of the \<open>case\<close> is never taken.
\<close>

fun Split :: "string \<Rightarrow> char \<Rightarrow> string list" where
  "Split [] sep = [[]]"
| "Split (c # cs) sep =
     (if c = sep then [] # Split cs sep
      else (case Split cs sep of [] \<Rightarrow> [[c]] | piece # pieces \<Rightarrow> (c # piece) # pieces))"

fun Join :: "string list \<Rightarrow> string \<Rightarrow> string" where
  "Join [] sep = []"
| "Join [p] sep = p"
| "Join (p # q # ps) sep = p @ sep @ Join (q # ps) sep"

text \<open>
  \<open>strings.Index(s, c)\<close>: position of the first occurrence, or \<open>-1\<close>; \<open>index_from\<close>
  scans with the position of the byte at hand.
\<close>

fun index_from :: "int \<Rightarrow> string \<Rightarrow> char \<Rightarrow> int" where
  "index_from i [] c = - 1"
| "index_from i (x # xs) c = (if x = c then i else index_from (i + 1) xs c)"

definition Index :: "string \<Rightarrow> char \<Rightarrow> int" where
  "Index s c = index_from 0 s c"

definition is_space :: "char \<Rightarrow> bool" where
  "is_space c \<longleftrightarrow> c \<in> set [CHR 0x09, CHR 0x0A, CHR 0x0B, CHR 0x0C, CHR 0x0D, CHR '' '']"

definition TrimSpace :: "string \<Rightarrow> string" where
  "TrimSpace s = rev (dropWhile is_space (rev (dropWhile is_space s)))"

definition Trim :: "string \<Rightarrow> string \<Rightarrow> string" where
  "Trim s cutset =
     rev (dropWhile (\<lambda>c. c \<in> set cutset) (rev (dropWhile (\<lambda>c. c \<in> set cutset) s)))"


section \<open>Paths\<close>

text \<open>
  \<open>filepath.Clean\<close>, \<open>filepath.Join\<close> of two elements and \<open>filepath.Dir\<close>, as they
  are on Unix, where the separator is \<open>/\<close> and there is no volume name.
  \<open>clean_elements\<close> is the loop of \<open>Clean\<close> over the elements between separators,
  \<open>out\<close> being the elements written so far, last first: an empty element and \<open>.\<close>
  are dropped, \<open>..\<close> takes back the last element unless there is none or it is
  itself \<open>..\<close>, and is then kept on a path that is not rooted.
\<close>

fun clean_elements :: "bool \<Rightarrow> string list \<Rightarrow> string list \<Rightarrow> string list" where
  "clean_elements rooted out [] = rev out"
| "clean_elements rooted out (e # es) =
     (if e = [] \<or> e = ''.'' then clean_elements rooted out es
      else if e = ''..'' then
        (case out of
           [] \<Rightarrow> if rooted then clean_elements rooted [] es else clean_elements rooted [e] es
         | previous # earlier \<Rightarrow>
             if previous = ''..'' then clean_elements rooted (e # out) es
             else clean_elements rooted earlier es)
      else clean_elements rooted (e # out) es)"

definition filepath_Clean :: "string \<Rightarrow> string" where
  "filepath_Clean path =
     (if path = [] then ''.''
      else (let rooted = (hd path = CHR ''/'');
                out = (if rooted then ''/'' else []) @
                      Join (clean_elements rooted [] (Split path CHR ''/'')) ''/''
            in if out = [] then ''.'' else out))"

definition filepath_Join :: "string \<Rightarrow> string \<Rightarrow> string" where
  "filepath_Join dir name =
     (if dir \<noteq> [] then filepath_Clean (dir @ ''/'' @ name)
      else if name \<noteq> [] then filepath_Clean name
      else [])"

definition filepath_Dir :: "string \<Rightarrow> string" where
  "filepath_Dir path = filepath_Clean (rev (dropWhile (\<lambda>c. c \<noteq> CHR ''/'') (rev path)))"

section \<open>The label trie\<close>

text \<open>
  \<open>type Node struct { Children map[string]*Node; IsEndpoint bool; Exceptions map[string]bool }\<close>.
  A Go map is modelled as an association list read with \<^const>\<open>map_of\<close> and written
  with \<^const>\<open>AList.update\<close>, so that ranging over it is possible; Go leaves the order of
  a \<open>range\<close> over a map open, the model ranges in order of first insertion.  The
  exception map only ever stores \<open>true\<close>, so it is the list of its keys.
\<close>

datatype Node =
  Node (Children: "(string \<times> Node) list") (IsEndpoint: bool) (Exceptions: "string list")

definition NewNode :: Node where
  "NewNode = Node [] False []"

text \<open>\<open>"mail.google.com"\<close> becomes \<open>["com", "google", "mail"]\<close>.\<close>

definition ReverseDomainParts :: "string \<Rightarrow> string list" where
  "ReverseDomainParts domain = rev (Split (ToLower domain) CHR ''.'')"

text \<open>The loop of \<open>ParseDomainWithExceptions\<close> over \<open>parts[1:]\<close>.\<close>

fun collect_exceptions :: "string list \<Rightarrow> string list" where
  "collect_exceptions [] = []"
| "collect_exceptions (p # ps) =
     (let exPart = Trim (TrimSpace p) '', ''
      in if exPart \<noteq> [] then exPart # collect_exceptions ps else collect_exceptions ps)"

definition ParseDomainWithExceptions :: "string \<Rightarrow> string \<times> string list" where
  "ParseDomainWithExceptions entry =
     (if Index entry CHR ''!'' > 0
      then (let parts = Split entry CHR ''!''
            in (TrimSpace (hd parts), collect_exceptions (tl parts)))
      else (entry, []))"

text \<open>\<open>currentNode.Exceptions[exception] = true\<close> for each given exception.\<close>

fun add_exceptions :: "string list \<Rightarrow> string list \<Rightarrow> string list" where
  "add_exceptions cur [] = cur"
| "add_exceptions cur (e # es) = add_exceptions (if e \<in> set cur then cur else cur @ [e]) es"

text \<open>
  The descent of \<open>InsertDomain\<close>: a missing child is created with \<open>NewNode\<close>, the node
  reached after the last part is marked and receives the exceptions.  The source
  updates the nodes in place; the model returns the updated node.
\<close>

fun insert_parts :: "Node \<Rightarrow> string list \<Rightarrow> string list \<Rightarrow> Node" where
  "insert_parts (Node ch ep ex) [] exceptions = Node ch True (add_exceptions ex exceptions)"
| "insert_parts (Node ch ep ex) (part # parts) exceptions =
     (let child = (case map_of ch part of None \<Rightarrow> NewNode | Some c \<Rightarrow> c)
      in Node (AList.update part (insert_parts child parts exceptions) ch) ep ex)"

definition InsertDomain :: "Node \<Rightarrow> string \<Rightarrow> string list \<Rightarrow> Node" where
  "InsertDomain root domain exceptions =
     insert_parts root (ReverseDomainParts domain) exceptions"

text \<open>
  The loop of \<open>IsDomainBlocked\<close>; \<open>rest\<close> is \<open>parts[i+1:]\<close>, so \<open>i+1 < len(parts)\<close> is
  \<open>rest \<noteq> []\<close> and \<open>parts[i+1]\<close> is its head.
\<close>

fun match_parts :: "Node \<Rightarrow> string list \<Rightarrow> bool" where
  "match_parts currentNode [] = False"
| "match_parts currentNode (part # rest) =
     (case map_of (Children currentNode) part of
        None \<Rightarrow> False
      | Some child \<Rightarrow>
          if IsEndpoint child
          then (case rest of
                  [] \<Rightarrow> True
                | nxt # _ \<Rightarrow> if nxt \<in> set (Exceptions child) then False else True)
          else match_parts child rest)"

definition IsDomainBlocked :: "Node \<Rightarrow> string \<Rightarrow> bool" where
  "IsDomainBlocked root domain = match_parts root (ReverseDomainParts domain)"

definition IsDomainAllowed :: "Node \<Rightarrow> string \<Rightarrow> bool" where
  "IsDomainAllowed root domain = IsDomainBlocked root domain"

text \<open>The loop of \<open>FormatDomainWithExceptions\<close>; \<open>first\<close> tells whether \<open>i == 0\<close>.\<close>

fun format_exceptions :: "bool \<Rightarrow> string list \<Rightarrow> string" where
  "format_exceptions first [] = []"
| "format_exceptions first (e # es) =
     (if first then '' !'' @ e else '', !'' @ e) @ format_exceptions False es"

definition FormatDomainWithExceptions :: "string \<Rightarrow> string list \<Rightarrow> string" where
  "FormatDomainWithExceptions domain exceptions =
     (if length exceptions = 0 then domain
      else domain @ format_exceptions True exceptions)"

text \<open>
  \<open>extractDomainsFromTrie\<close> appends to \<open>*result\<close>; the model returns what one call
  appends, in the same order: the node's own entry, then the entries of the children.
\<close>

fun extractDomainsFromTrie :: "Node \<Rightarrow> string list \<Rightarrow> string list" where
  "extractDomainsFromTrie (Node ch ep ex) pre =
     (if ep
      then [let domain = Join (rev pre) ''.''
            in if length ex > 0 then FormatDomainWithExceptions domain ex else domain]
      else []) @
     concat (map (\<lambda>(part, child). extractDomainsFromTrie child (pre @ [part])) ch)"

text \<open>The loop of \<open>CreateList\<close>, \<open>UpdateList\<close> and \<open>AddDomains\<close> over the entries.\<close>

fun insert_entries :: "Node \<Rightarrow> string list \<Rightarrow> Node" where
  "insert_entries root [] = root"
| "insert_entries root (domainEntry # es) =
     (case ParseDomainWithExceptions domainEntry of
        (domain, exceptions) \<Rightarrow> insert_entries (InsertDomain root domain exceptions) es)"







section \<open>The filter: tries, clients and files\<close>

record ClientConfig =
  IP :: string
  BlocklistRefs :: "string list"
  WhitelistRefs :: "string list"
  Mode :: string

record ListContent =
  Name :: string
  Type :: string
  Domains :: "string list"

text \<open>
  What the program writes into a file: the strings of a list file, each followed by a
  newline, or the indented JSON encoding of the client map.  A file is \<open>Written\<close>
  when all of it was written, and \<open>Unfinished\<close> when it was created, which empties it,
  and writing then failed: it holds what could be written of the content, maybe
  nothing.
\<close>

datatype content =
    ListText "string list"
  | ClientDocument "(string \<times> ClientConfig) list"

datatype disk_file =
    Written content
  | Unfinished content

text \<open>
  \<open>type DNSFilter struct\<close> together with the machine it runs on.  The three Go maps
  are association lists.  \<open>files\<close> are the regular files the program has to do with.
  Which file a path names is the operating system's matter (working directory,
  links): \<open>target\<close> gives the file a path names, and \<open>files\<close> is keyed by it.
  Whether a call of the operating system succeeds is its matter, too:
  \<open>mkdir_error\<close>, \<open>create_error\<close> and \<open>remove_error\<close> give the error of
  \<open>os.MkdirAll\<close>, \<open>os.Create\<close> and \<open>os.Remove\<close> on a path, and \<open>write_error\<close> that of
  writing to the file created at a path, \<open>None\<close> when the call succeeds; they
  describe the machine while one operation of the filter runs, which makes none of
  these calls twice on a path.  Directories are not kept track of.  \<open>clock\<close> is
  \<open>time.Now()\<close> in RFC 3339 form.  The mutex is not modelled: every operation runs
  alone.
\<close>

record DNSFilter =
  ConfigPath :: string
  BlocklistDir :: string
  WhitelistDir :: string
  BlocklistTries :: "(string \<times> Node) list"
  WhitelistTries :: "(string \<times> Node) list"
  Clients :: "(string \<times> ClientConfig) list"
  files :: "(string \<times> disk_file) list"
  target :: "string \<Rightarrow> string"
  mkdir_error :: "string \<Rightarrow> string option"
  create_error :: "string \<Rightarrow> string option"
  write_error :: "string \<Rightarrow> string option"
  remove_error :: "string \<Rightarrow> string option"
  clock :: string

text \<open>
  The errors built with \<open>fmt.Errorf\<close>, and their texts (\<open>err.Error()\<close>); \<open>e\<close> is the
  text of the error of the operating system or the scanner that \<open>%v\<close> prints.
\<close>

datatype error =
    InvalidListType string
  | ListNotFound string
  | BlocklistExists string
  | WhitelistExists string
  | ClientNotFound string
  | ClientExists string
  | RefBlocklistNotFound string
  | RefWhitelistNotFound string
  | InvalidMode string
  | OpenFailed string string
  | ReadFailed string string
  | MkdirFailed string string
  | CreateConfigFailed string
  | WriteConfigFailed string
  | CreateListFileFailed string string

fun Error :: "error \<Rightarrow> string" where
  "Error (InvalidListType t) = ''invalid list type: '' @ t"
| "Error (ListNotFound n) = ''list not found: '' @ n"
| "Error (BlocklistExists n) = ''blocklist already exists: '' @ n"
| "Error (WhitelistExists n) = ''whitelist already exists: '' @ n"
| "Error (ClientNotFound ip) = ''client not found: '' @ ip"
| "Error (ClientExists ip) = ''client already exists: '' @ ip"
| "Error (RefBlocklistNotFound n) = ''referenced blocklist not found: '' @ n"
| "Error (RefWhitelistNotFound n) = ''referenced whitelist not found: '' @ n"
| "Error (InvalidMode m) = ''invalid mode: '' @ m"
| "Error (OpenFailed filename e) = ''error opening file '' @ filename @ '': '' @ e"
| "Error (ReadFailed filename e) = ''error reading file '' @ filename @ '': '' @ e"
| "Error (MkdirFailed dir e) = ''error creating directory '' @ dir @ '': '' @ e"
| "Error (CreateConfigFailed e) = ''error creating client configuration file: '' @ e"
| "Error (WriteConfigFailed e) = ''error writing client configuration: '' @ e"
| "Error (CreateListFileFailed filePath e) = ''error creating list file '' @ filePath @ '': '' @ e"

text \<open>
  What reading the file of a name gives: \<open>os.Open\<close> fails, or the file delivers some
  text and reading then fails, or the file delivers its bytes to the end.
\<close>

datatype reading =
    OpenError string
  | ReadError string string
  | Bytes string


text \<open>Mutating operations return the filter they leave behind and Go's \<open>error\<close> (\<open>None\<close> is \<open>nil\<close>).\<close>

definition put_file :: "DNSFilter \<Rightarrow> string \<Rightarrow> disk_file \<Rightarrow> DNSFilter" where
  "put_file df path f = df\<lparr>files := AList.update (target df path) f (files df)\<rparr>"

text \<open>
  \<open>SaveClientConfig\<close>: when the directory or the file cannot be created the document
  is as before; \<open>os.Create\<close> empties the file, so after a failure of \<open>Encode\<close> the
  document is unfinished.
\<close>

definition SaveClientConfig :: "DNSFilter \<Rightarrow> DNSFilter \<times> error option" where
  "SaveClientConfig df =
     (let dir = filepath_Dir (ConfigPath df)
      in case mkdir_error df dir of
           Some e \<Rightarrow> (df, Some (MkdirFailed dir e))
         | None \<Rightarrow>
             (case create_error df (ConfigPath df) of
                Some e \<Rightarrow> (df, Some (CreateConfigFailed e))
              | None \<Rightarrow>
                  (case write_error df (ConfigPath df) of
                     Some e \<Rightarrow>
                       (put_file df (ConfigPath df) (Unfinished (ClientDocument (Clients df))),
                        Some (WriteConfigFailed e))
                   | None \<Rightarrow>
                       (put_file df (ConfigPath df) (Written (ClientDocument (Clients df))),
                        None))))"

definition list_header :: "DNSFilter \<Rightarrow> string list" where
  "list_header df = [''# Automatically generated list'', ''# Last update: '' @ clock df, []]"

text \<open>
  \<open>SaveDomainList\<close>.  The results of \<open>file.WriteString\<close> are not looked at: once the
  file is created the function returns \<open>nil\<close>, whether the writes succeed or not.
\<close>

definition SaveDomainList ::
  "DNSFilter \<Rightarrow> string \<Rightarrow> string \<Rightarrow> string list \<Rightarrow> DNSFilter \<times> error option" where
  "SaveDomainList df listName listType domains =
     (case (if listType = ''blocklist'' then Some (BlocklistDir df)
            else if listType = ''whitelist'' then Some (WhitelistDir df)
            else None) of
        None \<Rightarrow> (df, Some (InvalidListType listType))
      | Some dirPath \<Rightarrow>
          (case mkdir_error df dirPath of
             Some e \<Rightarrow> (df, Some (MkdirFailed dirPath e))
           | None \<Rightarrow>
               (let filePath = filepath_Join dirPath listName
                in case create_error df filePath of
                     Some e \<Rightarrow> (df, Some (CreateListFileFailed filePath e))
                   | None \<Rightarrow>
                       (case write_error df filePath of
                          Some e \<Rightarrow>
                            (put_file df filePath (Unfinished (ListText (list_header df @ domains))),
                             None)
                        | None \<Rightarrow>
                            (put_file df filePath (Written (ListText (list_header df @ domains))),
                             None)))))"

text \<open>
  The lookup that opens most list operations: the trie of the list in the map of its
  type (\<open>trie, exists = df.BlocklistTries[listName]\<close> or the whitelist one), or the
  error for a list type that is neither.
\<close>

definition lookup_trie :: "DNSFilter \<Rightarrow> string \<Rightarrow> string \<Rightarrow> error + Node option" where
  "lookup_trie df listName listType =
     (if listType = ''blocklist'' then Inr (map_of (BlocklistTries df) listName)
      else if listType = ''whitelist'' then Inr (map_of (WhitelistTries df) listName)
      else Inl (InvalidListType listType))"

definition GetListContent :: "DNSFilter \<Rightarrow> string \<Rightarrow> string \<Rightarrow> error + ListContent" where
  "GetListContent df listName listType =
     (case lookup_trie df listName listType of
        Inl err \<Rightarrow> Inl err
      | Inr None \<Rightarrow> Inl (ListNotFound listName)
      | Inr (Some trie) \<Rightarrow>
          Inr \<lparr>Name = listName, Type = listType, Domains = extractDomainsFromTrie trie []\<rparr>)"

text \<open>\<open>df.BlocklistTries[name] = root\<close> or \<open>df.WhitelistTries[name] = root\<close>, by list type.\<close>

definition store_trie :: "DNSFilter \<Rightarrow> string \<Rightarrow> string \<Rightarrow> Node \<Rightarrow> DNSFilter" where
  "store_trie df listName listType root =
     (if listType = ''blocklist''
      then df\<lparr>BlocklistTries := AList.update listName root (BlocklistTries df)\<rparr>
      else df\<lparr>WhitelistTries := AList.update listName root (WhitelistTries df)\<rparr>)"

definition CreateList :: "DNSFilter \<Rightarrow> ListContent \<Rightarrow> DNSFilter \<times> error option" where
  "CreateList df list =
     (case (if Type list = ''blocklist'' then
              (if map_of (BlocklistTries df) (Name list) \<noteq> None
               then Some (BlocklistExists (Name list)) else None)
            else if Type list = ''whitelist'' then
              (if map_of (WhitelistTries df) (Name list) \<noteq> None
               then Some (WhitelistExists (Name list)) else None)
            else Some (InvalidListType (Type list))) of
        Some err \<Rightarrow> (df, Some err)
      | None \<Rightarrow>
          (let root = insert_entries NewNode (Domains list)
           in SaveDomainList (store_trie df (Name list) (Type list) root)
                (Name list) (Type list) (Domains list)))"

definition UpdateList :: "DNSFilter \<Rightarrow> ListContent \<Rightarrow> DNSFilter \<times> error option" where
  "UpdateList df list =
     (case lookup_trie df (Name list) (Type list) of
        Inl err \<Rightarrow> (df, Some err)
      | Inr None \<Rightarrow> (df, Some (ListNotFound (Name list)))
      | Inr (Some _) \<Rightarrow>
          (let root = insert_entries NewNode (Domains list)
           in SaveDomainList (store_trie df (Name list) (Type list) root)
                (Name list) (Type list) (Domains list)))"

definition removeFromSlice :: "string list \<Rightarrow> string \<Rightarrow> string list" where
  "removeFromSlice slice item = filter (\<lambda>s. s \<noteq> item) slice"

text \<open>
  The body of the loop of \<open>removeListReferencesFromClients\<close> for one client: the
  configuration after it and the flag \<open>clientUpdated\<close>.
\<close>

definition strip_reference :: "ClientConfig \<Rightarrow> string \<Rightarrow> string \<Rightarrow> ClientConfig \<times> bool" where
  "strip_reference config listName listType =
     (if listType = ''blocklist'' then
        (let newBlocklists = removeFromSlice (BlocklistRefs config) listName
         in if length newBlocklists \<noteq> length (BlocklistRefs config)
            then (config\<lparr>BlocklistRefs := newBlocklists\<rparr>, True) else (config, False))
      else
        (let newWhitelists = removeFromSlice (WhitelistRefs config) listName
         in if length newWhitelists \<noteq> length (WhitelistRefs config)
            then (config\<lparr>WhitelistRefs := newWhitelists\<rparr>, True) else (config, False)))"

text \<open>The loop over \<open>df.Clients\<close>: the clients after it and the flag \<open>updated\<close>.\<close>

fun strip_references ::
  "(string \<times> ClientConfig) list \<Rightarrow> string \<Rightarrow> string \<Rightarrow> (string \<times> ClientConfig) list \<times> bool" where
  "strip_references [] listName listType = ([], False)"
| "strip_references ((ip, config) # others) listName listType =
     (case strip_reference config listName listType of
        (config', clientUpdated) \<Rightarrow>
          (case strip_references others listName listType of
             (others', updated) \<Rightarrow>
               ((ip, if clientUpdated then config' else config) # others',
                clientUpdated \<or> updated)))"

text \<open>A failure of \<open>SaveClientConfig\<close> is logged here and not returned.\<close>

definition removeListReferencesFromClients :: "DNSFilter \<Rightarrow> string \<Rightarrow> string \<Rightarrow> DNSFilter" where
  "removeListReferencesFromClients df listName listType =
     (case strip_references (Clients df) listName listType of
        (clients', updated) \<Rightarrow>
          (let df' = df\<lparr>Clients := clients'\<rparr>
           in if updated then fst (SaveClientConfig df') else df'))"

text \<open>
  The end of \<open>DeleteList\<close>: \<open>os.Remove\<close> of the list file; its failure is logged and
  not returned.
\<close>

definition remove_list_file :: "DNSFilter \<Rightarrow> string \<Rightarrow> string \<Rightarrow> DNSFilter" where
  "remove_list_file df listName listType =
     (let dirPath = (if listType = ''blocklist'' then BlocklistDir df else WhitelistDir df);
          filePath = filepath_Join dirPath listName
      in case remove_error df filePath of
           Some e \<Rightarrow> df
         | None \<Rightarrow> df\<lparr>files := AList.delete (target df filePath) (files df)\<rparr>)"

definition DeleteList :: "DNSFilter \<Rightarrow> string \<Rightarrow> string \<Rightarrow> DNSFilter \<times> error option" where
  "DeleteList df listName listType =
     (case lookup_trie df listName listType of
        Inl err \<Rightarrow> (df, Some err)
      | Inr None \<Rightarrow> (df, Some (ListNotFound listName))
      | Inr (Some _) \<Rightarrow>
          (let df1 = (if listType = ''blocklist''
                      then df\<lparr>BlocklistTries := AList.delete listName (BlocklistTries df)\<rparr>
                      else df\<lparr>WhitelistTries := AList.delete listName (WhitelistTries df)\<rparr>);
               df2 = removeListReferencesFromClients df1 listName listType
           in (remove_list_file df2 listName listType, None)))"

definition AddDomains ::
  "DNSFilter \<Rightarrow> string \<Rightarrow> string \<Rightarrow> string list \<Rightarrow> DNSFilter \<times> error option" where
  "AddDomains df listName listType domains =
     (case lookup_trie df listName listType of
        Inl err \<Rightarrow> (df, Some err)
      | Inr None \<Rightarrow> (df, Some (ListNotFound listName))
      | Inr (Some trie) \<Rightarrow>
          (let trie' = insert_entries trie domains;
               allDomains = extractDomainsFromTrie trie' []
           in SaveDomainList (store_trie df listName listType trie')
                listName listType allDomains))"

text \<open>
  The second loop of \<open>RemoveDomains\<close>, over \<open>currentDomains\<close>: the new trie and
  \<open>remainingDomains\<close>.  \<open>domainsToRemove\<close> holds the base domains of the request,
  collected by the first loop.
\<close>

fun keep_remaining ::
  "string list \<Rightarrow> Node \<Rightarrow> string list \<Rightarrow> Node \<times> string list" where
  "keep_remaining domainsToRemove root [] = (root, [])"
| "keep_remaining domainsToRemove root (domainEntry # others) =
     (case ParseDomainWithExceptions domainEntry of
        (baseDomain, exceptions) \<Rightarrow>
          if baseDomain \<notin> set domainsToRemove
          then (case keep_remaining domainsToRemove
                       (InsertDomain root baseDomain exceptions) others of
                  (root', remaining) \<Rightarrow> (root', domainEntry # remaining))
          else keep_remaining domainsToRemove root others)"

definition RemoveDomains ::
  "DNSFilter \<Rightarrow> string \<Rightarrow> string \<Rightarrow> string list \<Rightarrow> DNSFilter \<times> error option" where
  "RemoveDomains df listName listType domains =
     (case lookup_trie df listName listType of
        Inl err \<Rightarrow> (df, Some err)
      | Inr None \<Rightarrow> (df, Some (ListNotFound listName))
      | Inr (Some trie) \<Rightarrow>
          (let currentDomains = extractDomainsFromTrie trie [];
               domainsToRemove = map (\<lambda>domain. fst (ParseDomainWithExceptions domain)) domains
           in (case keep_remaining domainsToRemove NewNode currentDomains of
                 (root, remainingDomains) \<Rightarrow>
                   SaveDomainList (store_trie df listName listType root)
                     listName listType remainingDomains)))"

section \<open>Clients and the policy evaluator\<close>

definition GetClientByIP :: "DNSFilter \<Rightarrow> string \<Rightarrow> error + ClientConfig" where
  "GetClientByIP df ip =
     (case map_of (Clients df) ip of
        None \<Rightarrow> Inl (ClientNotFound ip)
      | Some config \<Rightarrow>
          Inr \<lparr>IP = ip, BlocklistRefs = BlocklistRefs config,
               WhitelistRefs = WhitelistRefs config, Mode = Mode config\<rparr>)"

text \<open>The two loops of \<open>validateListReferences\<close>: the first missing name, if any.\<close>

fun first_missing :: "(string \<times> Node) list \<Rightarrow> string list \<Rightarrow> string option" where
  "first_missing tries [] = None"
| "first_missing tries (listName # names) =
     (if map_of tries listName = None then Some listName else first_missing tries names)"

definition validateListReferences :: "DNSFilter \<Rightarrow> ClientConfig \<Rightarrow> error option" where
  "validateListReferences df client =
     (case first_missing (BlocklistTries df) (BlocklistRefs client) of
        Some listName \<Rightarrow> Some (RefBlocklistNotFound listName)
      | None \<Rightarrow>
          (case first_missing (WhitelistTries df) (WhitelistRefs client) of
             Some listName \<Rightarrow> Some (RefWhitelistNotFound listName)
           | None \<Rightarrow> None))"

text \<open>
  What \<open>CreateClient\<close> and \<open>UpdateClient\<close> do once the presence check has passed: both
  run the same statements from \<open>validateListReferences\<close> on.  The stored copy carries
  no \<open>IP\<close>.
\<close>

definition store_client :: "DNSFilter \<Rightarrow> ClientConfig \<Rightarrow> DNSFilter \<times> error option" where
  "store_client df client =
     (case validateListReferences df client of
        Some err \<Rightarrow> (df, Some err)
      | None \<Rightarrow>
          if Mode client \<noteq> ''blocklist'' \<and> Mode client \<noteq> ''whitelist''
          then (df, Some (InvalidMode (Mode client)))
          else (let config = \<lparr>IP = [], BlocklistRefs = BlocklistRefs client,
                               WhitelistRefs = WhitelistRefs client, Mode = Mode client\<rparr>
                in SaveClientConfig (df\<lparr>Clients := AList.update (IP client) config (Clients df)\<rparr>)))"

definition CreateClient :: "DNSFilter \<Rightarrow> ClientConfig \<Rightarrow> DNSFilter \<times> error option" where
  "CreateClient df client =
     (if map_of (Clients df) (IP client) \<noteq> None then (df, Some (ClientExists (IP client)))
      else store_client df client)"

definition UpdateClient :: "DNSFilter \<Rightarrow> ClientConfig \<Rightarrow> DNSFilter \<times> error option" where
  "UpdateClient df client =
     (if map_of (Clients df) (IP client) = None then (df, Some (ClientNotFound (IP client)))
      else store_client df client)"

definition DeleteClient :: "DNSFilter \<Rightarrow> string \<Rightarrow> DNSFilter \<times> error option" where
  "DeleteClient df ip =
     (if map_of (Clients df) ip = None then (df, Some (ClientNotFound ip))
      else SaveClientConfig (df\<lparr>Clients := AList.delete ip (Clients df)\<rparr>))"

text \<open>
  The loop of \<open>CheckDomain\<close> in blocklist mode over \<open>config.BlocklistRefs\<close>: \<open>True\<close> when
  some referenced blocklist that is loaded blocks the domain (the function then
  returns \<open>false\<close>).  A name without a trie is skipped.
\<close>

fun blocked_by_any :: "(string \<times> Node) list \<Rightarrow> string list \<Rightarrow> string \<Rightarrow> bool" where
  "blocked_by_any tries [] domain = False"
| "blocked_by_any tries (listName # names) domain =
     (case map_of tries listName of
        None \<Rightarrow> blocked_by_any tries names domain
      | Some trie \<Rightarrow>
          if IsDomainBlocked trie domain then True else blocked_by_any tries names domain)"

text \<open>The loop in whitelist mode over \<open>config.WhitelistRefs\<close>.\<close>

fun allowed_by_any :: "(string \<times> Node) list \<Rightarrow> string list \<Rightarrow> string \<Rightarrow> bool" where
  "allowed_by_any tries [] domain = False"
| "allowed_by_any tries (listName # names) domain =
     (case map_of tries listName of
        None \<Rightarrow> allowed_by_any tries names domain
      | Some trie \<Rightarrow>
          if IsDomainAllowed trie domain then True else allowed_by_any tries names domain)"

text \<open>\<open>CheckDomain\<close>: \<open>True\<close> is "allowed", \<open>False\<close> is "denied".\<close>

definition CheckDomain :: "DNSFilter \<Rightarrow> string \<Rightarrow> string \<Rightarrow> bool" where
  "CheckDomain df clientIP domain =
     (case map_of (Clients df) clientIP of
        None \<Rightarrow> False
      | Some config \<Rightarrow>
          if Mode config = ''blocklist''
          then (if blocked_by_any (BlocklistTries df) (BlocklistRefs config) domain
                then False else True)
          else if Mode config = ''whitelist''
          then (if allowed_by_any (WhitelistTries df) (WhitelistRefs config) domain
                then True else False)
          else False)"

section \<open>The DNS handler\<close>

text \<open>
  \<open>ServeDNS\<close> of the plugin: what it does with a request whose client address and
  query name the framework reports as \<open>ip\<close> and \<open>domain\<close>.  The filter may be absent
  (\<open>ib.DNSFilter == nil\<close>).
\<close>

datatype dns_action = AnswerNXDOMAIN | NextPlugin

definition ServeDNS :: "DNSFilter option \<Rightarrow> string \<Rightarrow> string \<Rightarrow> dns_action" where
  "ServeDNS dnsFilter ip domain =
     (let allowed = (case dnsFilter of None \<Rightarrow> True | Some df \<Rightarrow> CheckDomain df ip domain)
      in if \<not> allowed then AnswerNXDOMAIN else NextPlugin)"

section \<open>The REST handlers\<close>

text \<open>
  A handler is modelled by the status code and the JSON body it writes, and the filter
  it leaves behind.  The arguments are the variables that the router takes from the
  path and, for handlers that read a body, the result of \<open>decodeJSONRequest\<close>
  (\<open>None\<close>: the body does not decode).  Logging and the timeout wrapper are left out.
\<close>

datatype body =
    ErrorResponse string
  | ListBody ListContent
  | ClientBody ClientConfig
  | EmptyObject
  | NoBody

record Response =
  statusCode :: nat
  responseBody :: body

definition StatusOK :: nat where "StatusOK = 200"
definition StatusNoContent :: nat where "StatusNoContent = 204"
definition StatusBadRequest :: nat where "StatusBadRequest = 400"
definition StatusNotFound :: nat where "StatusNotFound = 404"

definition sendErrorResponse :: "string \<Rightarrow> nat \<Rightarrow> Response" where
  "sendErrorResponse message code = \<lparr>statusCode = code, responseBody = ErrorResponse message\<rparr>"

definition sendJSONResponse :: "body \<Rightarrow> nat \<Rightarrow> Response" where
  "sendJSONResponse data code = \<lparr>statusCode = code, responseBody = data\<rparr>"

definition valid_list_type :: "string \<Rightarrow> bool" where
  "valid_list_type listType \<longleftrightarrow> \<not> (listType \<noteq> ''blocklist'' \<and> listType \<noteq> ''whitelist'')"

text \<open>\<open>GET /api/lists/{type}/{name}\<close>\<close>

definition getListContent :: "DNSFilter \<Rightarrow> string \<Rightarrow> string \<Rightarrow> DNSFilter \<times> Response" where
  "getListContent df listType listName =
     (if \<not> valid_list_type listType
      then (df, sendErrorResponse ''Invalid list type'' StatusBadRequest)
      else (case GetListContent df listName listType of
              Inl err \<Rightarrow> (df, sendErrorResponse (Error err) StatusNotFound)
            | Inr content \<Rightarrow> (df, sendJSONResponse (ListBody content) StatusOK)))"

text \<open>\<open>PUT /api/lists/{type}/{name}\<close>\<close>

definition updateList ::
  "DNSFilter \<Rightarrow> string \<Rightarrow> string \<Rightarrow> ListContent option \<Rightarrow> DNSFilter \<times> Response" where
  "updateList df listType listName decoded =
     (if \<not> valid_list_type listType
      then (df, sendErrorResponse ''Invalid list type'' StatusBadRequest)
      else (case decoded of
              None \<Rightarrow> (df, sendErrorResponse ''Invalid JSON format'' StatusBadRequest)
            | Some body \<Rightarrow>
                (let updatedList = body\<lparr>Name := listName, Type := listType\<rparr>
                 in (case UpdateList df updatedList of
                       (df', Some err) \<Rightarrow> (df', sendErrorResponse (Error err) StatusBadRequest)
                     | (df', None) \<Rightarrow> (df', sendJSONResponse (ListBody updatedList) StatusOK)))))"

text \<open>\<open>DELETE /api/lists/{type}/{name}\<close>\<close>

definition deleteList :: "DNSFilter \<Rightarrow> string \<Rightarrow> string \<Rightarrow> DNSFilter \<times> Response" where
  "deleteList df listType listName =
     (if \<not> valid_list_type listType
      then (df, sendErrorResponse ''Invalid list type'' StatusBadRequest)
      else (case DeleteList df listName listType of
              (df', Some err) \<Rightarrow> (df', sendErrorResponse (Error err) StatusBadRequest)
            | (df', None) \<Rightarrow> (df', \<lparr>statusCode = StatusNoContent, responseBody = NoBody\<rparr>)))"

text \<open>\<open>POST /api/lists/{type}/{name}/domains\<close>\<close>

definition addDomains ::
  "DNSFilter \<Rightarrow> string \<Rightarrow> string \<Rightarrow> string list option \<Rightarrow> DNSFilter \<times> Response" where
  "addDomains df listType listName decoded =
     (if \<not> valid_list_type listType
      then (df, sendErrorResponse ''Invalid list type'' StatusBadRequest)
      else (case decoded of
              None \<Rightarrow> (df, sendErrorResponse ''Invalid JSON format'' StatusBadRequest)
            | Some domains \<Rightarrow>
                (case AddDomains df listName listType domains of
                   (df', Some err) \<Rightarrow> (df', sendErrorResponse (Error err) StatusBadRequest)
                 | (df', None) \<Rightarrow> (df', sendJSONResponse EmptyObject StatusOK))))"

text \<open>\<open>DELETE /api/lists/{type}/{name}/domains\<close>\<close>

definition removeDomains ::
  "DNSFilter \<Rightarrow> string \<Rightarrow> string \<Rightarrow> string list option \<Rightarrow> DNSFilter \<times> Response" where
  "removeDomains df listType listName decoded =
     (if \<not> valid_list_type listType
      then (df, sendErrorResponse ''Invalid list type'' StatusBadRequest)
      else (case decoded of
              None \<Rightarrow> (df, sendErrorResponse ''Invalid JSON format'' StatusBadRequest)
            | Some domains \<Rightarrow>
                (case RemoveDomains df listName listType domains of
                   (df', Some err) \<Rightarrow> (df', sendErrorResponse (Error err) StatusBadRequest)
                 | (df', None) \<Rightarrow> (df', sendJSONResponse EmptyObject StatusOK))))"

text \<open>\<open>GET /api/clients/{ip}\<close>\<close>

definition getClientByIP :: "DNSFilter \<Rightarrow> string \<Rightarrow> DNSFilter \<times> Response" where
  "getClientByIP df clientIP =
     (case GetClientByIP df clientIP of
        Inl err \<Rightarrow> (df, sendErrorResponse (Error err) StatusNotFound)
      | Inr client \<Rightarrow> (df, sendJSONResponse (ClientBody client) StatusOK))"

text \<open>\<open>PUT /api/clients/{ip}\<close>\<close>

definition updateClient ::
  "DNSFilter \<Rightarrow> string \<Rightarrow> ClientConfig option \<Rightarrow> DNSFilter \<times> Response" where
  "updateClient df clientIP decoded =
     (case decoded of
        None \<Rightarrow> (df, sendErrorResponse ''Invalid JSON format'' StatusBadRequest)
      | Some body \<Rightarrow>
          (let updatedClient = body\<lparr>IP := clientIP\<rparr>
           in (case UpdateClient df updatedClient of
                 (df', Some err) \<Rightarrow> (df', sendErrorResponse (Error err) StatusBadRequest)
               | (df', None) \<Rightarrow> (df', sendJSONResponse (ClientBody updatedClient) StatusOK))))"

text \<open>\<open>DELETE /api/clients/{ip}\<close>\<close>

definition deleteClient :: "DNSFilter \<Rightarrow> string \<Rightarrow> DNSFilter \<times> Response" where
  "deleteClient df clientIP =
     (case DeleteClient df clientIP of
        (df', Some err) \<Rightarrow> (df', sendErrorResponse (Error err) StatusBadRequest)
      | (df', None) \<Rightarrow> (df', \<lparr>statusCode = StatusNoContent, responseBody = NoBody\<rparr>))"

section \<open>The trie as nodes in a store\<close>

text \<open>
  Where the question is what the pointers of a trie do (sharing, cycles), the nodes
  are kept in a store: an address is an index into the list of allocated nodes, a
  \<open>*Node\<close> is an address, and \<open>NewNode()\<close> allocates the next address.  \<open>h_insert_parts\<close> is
  the descent of \<open>InsertDomain\<close> on this store, written after the same statements as
  \<open>insert_parts\<close>; \<open>currentNode\<close> is the pointer the loop moves.  A pointer of the
  program is never dangling; in the model this is part of what is proved of the
  stores the program builds (every child pointer is an address inside the store).
\<close>

record hnode =
  hChildren :: "(string \<times> nat) list"
  hIsEndpoint :: bool
  hExceptions :: "string list"

definition hNewNode :: hnode where
  "hNewNode = \<lparr>hChildren = [], hIsEndpoint = False, hExceptions = []\<rparr>"

fun h_insert_parts :: "hnode list \<Rightarrow> nat \<Rightarrow> string list \<Rightarrow> string list \<Rightarrow> hnode list" where
  "h_insert_parts h currentNode [] exceptions =
     h[currentNode := (h ! currentNode)
         \<lparr>hIsEndpoint := True,
          hExceptions := add_exceptions (hExceptions (h ! currentNode)) exceptions\<rparr>]"
| "h_insert_parts h currentNode (part # parts) exceptions =
     (case map_of (hChildren (h ! currentNode)) part of
        Some child \<Rightarrow> h_insert_parts h child parts exceptions
      | None \<Rightarrow>
          h_insert_parts
            (h[currentNode := (h ! currentNode)
                 \<lparr>hChildren := AList.update part (length h) (hChildren (h ! currentNode))\<rparr>]
             @ [hNewNode])
            (length h) parts exceptions)"

definition h_InsertDomain :: "hnode list \<Rightarrow> nat \<Rightarrow> string \<Rightarrow> string list \<Rightarrow> hnode list" where
  "h_InsertDomain h root domain exceptions =
     h_insert_parts h root (ReverseDomainParts domain) exceptions"

section \<open>Notions used in the statements\<close>

text \<open>
  A machine to run the examples on: its directories are \<open>/\<close>, \<open>/blocklists\<close> and
  \<open>/whitelists\<close>, and nothing is forbidden there.  So \<open>os.Create\<close> succeeds on a
  path unless it is one of the directories or lies in none of them.
\<close>

definition sample_create_error :: "string \<Rightarrow> string option" where
  "sample_create_error path =
     (if path \<in> set [''/'', ''/blocklists'', ''/whitelists'']
      then Some (''open '' @ path @ '': is a directory'')
      else if filepath_Dir path \<notin> set [''/'', ''/blocklists'', ''/whitelists'']
      then Some (''open '' @ path @ '': no such file or directory'')
      else None)"

text \<open>
  \<open>NewDNSFilter\<close> gives empty maps; here it is called with the default paths of the
  plugin and stands on that machine, without files of the program, where a path names
  the file of its own text.
\<close>

definition NewDNSFilter :: DNSFilter where
  "NewDNSFilter =
     \<lparr>ConfigPath = ''/clients.json'', BlocklistDir = ''/blocklists'',
      WhitelistDir = ''/whitelists'',
      BlocklistTries = [], WhitelistTries = [], Clients = [], files = [],
      target = (\<lambda>path. path), mkdir_error = (\<lambda>path. None),
      create_error = sample_create_error,
      write_error = (\<lambda>path. None), remove_error = (\<lambda>path. None),
      clock = ''2025-04-12T10:30:00Z''\<rparr>"

text \<open>
  Scenario S1 of the specification: blocklist \<open>ads\<close> holding \<open>example.com !mail\<close>, and
  a client in blocklist mode that refers to it.
\<close>

definition S1_filter :: DNSFilter where
  "S1_filter =
     NewDNSFilter
     \<lparr>BlocklistTries :=
        [(''ads'', Node [(''com'', Node [(''example'', Node [] True [''mail''])] False [])]
                    False [])],
      Clients := [(''10.0.0.1'', \<lparr>IP = [], BlocklistRefs = [''ads''], WhitelistRefs = [],
                                  Mode = ''blocklist''\<rparr>)],
      files :=
        [(''/clients.json'',
          Written (ClientDocument
            [(''10.0.0.1'', \<lparr>IP = [], BlocklistRefs = [''ads''], WhitelistRefs = [],
                               Mode = ''blocklist''\<rparr>)])),
         (''/blocklists/ads'',
          Written (ListText
            [''# Automatically generated list'', ''# Last update: 2025-04-12T10:30:00Z'',
             [], ''example.com !mail'']))]\<rparr>"

text \<open>
  Scenario S4: a blocklist \<open>x\<close> and a client that refers to it, the client document on
  disk in step with the registry.  The two arguments are the errors, if any, that the
  machine has for creating a file and for writing to one.
\<close>

definition S4_filter :: "string option \<Rightarrow> string option \<Rightarrow> DNSFilter" where
  "S4_filter creating writing =
     NewDNSFilter
     \<lparr>BlocklistTries :=
        [(''x'', Node [(''com'', Node [(''a'', Node [] True [])] False [])] False [])],
      Clients := [(''10.0.0.4'', \<lparr>IP = [], BlocklistRefs = [''x''], WhitelistRefs = [],
                                  Mode = ''blocklist''\<rparr>)],
      files :=
        [(''/clients.json'',
          Written (ClientDocument
            [(''10.0.0.4'', \<lparr>IP = [], BlocklistRefs = [''x''], WhitelistRefs = [],
                               Mode = ''blocklist''\<rparr>)])),
         (''/blocklists/x'',
          Written (ListText
            [''# Automatically generated list'', ''# Last update: 2025-04-12T10:30:00Z'',
             [], ''a.com'']))],
      create_error := (\<lambda>path. creating),
      write_error := (\<lambda>path. writing)\<rparr>"

text \<open>
  A filter whose blocklist directory holds the client document: the file of the
  blocklist \<open>clients.json\<close> is the document.
\<close>

definition shared_path_filter :: DNSFilter where
  "shared_path_filter =
     NewDNSFilter
     \<lparr>BlocklistDir := ''/'',
      BlocklistTries := [(''clients.json'', Node [] False [])],
      Clients := [(''10.0.0.4'', \<lparr>IP = [], BlocklistRefs = [''clients.json''],
                                  WhitelistRefs = [], Mode = ''blocklist''\<rparr>)],
      files :=
        [(''/clients.json'',
          Written (ClientDocument
            [(''10.0.0.4'', \<lparr>IP = [], BlocklistRefs = [''clients.json''],
                               WhitelistRefs = [], Mode = ''blocklist''\<rparr>)]))]\<rparr>"

text \<open>What the repair after a list deletion does to one client policy.\<close>

definition strip_one :: "string \<Rightarrow> string \<Rightarrow> ClientConfig \<Rightarrow> ClientConfig" where
  "strip_one listName listType c =
     (if listType = ''blocklist''
      then c\<lparr>BlocklistRefs := removeFromSlice (BlocklistRefs c) listName\<rparr>
      else c\<lparr>WhitelistRefs := removeFromSlice (WhitelistRefs c) listName\<rparr>)"

text \<open>
  Following a path of labels from a node, and the step at which the lookup of
  \<open>IsDomainBlocked\<close> is decided: the first node on the path of \<open>parts\<close> that is an
  endpoint is the one reached by \<open>parts[0..k]\<close>, and the label after it, if there is
  one, is not among its exceptions.
\<close>

fun descend :: "Node \<Rightarrow> string list \<Rightarrow> Node option" where
  "descend n [] = Some n"
| "descend n (p # ps) = (case map_of (Children n) p of None \<Rightarrow> None | Some c \<Rightarrow> descend c ps)"

definition decided_at :: "Node \<Rightarrow> string list \<Rightarrow> nat \<Rightarrow> bool" where
  "decided_at root parts k \<longleftrightarrow>
     k < length parts \<and>
     (\<exists>c. descend root (take (Suc k) parts) = Some c \<and> IsEndpoint c \<and>
          (Suc k < length parts \<longrightarrow> parts ! Suc k \<notin> set (Exceptions c))) \<and>
     (\<forall>j<k. \<exists>c. descend root (take (Suc j) parts) = Some c \<and> \<not> IsEndpoint c)"

text \<open>
  The data model of the specification: a label is non-empty ASCII text without dot,
  exclamation mark, comma or white space; it is case-folded when lowering leaves it
  as it is; a domain is a dot-separated sequence of labels.
\<close>

definition label_text :: "string \<Rightarrow> bool" where
  "label_text l \<longleftrightarrow>
     l \<noteq> [] \<and>
     (\<forall>c \<in> set l. (of_char c :: nat) < 128 \<and> c \<notin> set ''.!, '' \<and> \<not> is_space c)"

definition case_folded :: "string \<Rightarrow> bool" where
  "case_folded l \<longleftrightarrow> ToLower l = l"

definition domain_text :: "string \<Rightarrow> bool" where
  "domain_text d \<longleftrightarrow> (\<forall>l \<in> set (Split d CHR ''.''). label_text l)"

text \<open>
  The tries built only from domains whose labels are all non-empty: every trie is
  built by \<open>InsertDomain\<close> from a fresh root, whichever operation drives it.
\<close>

inductive labelled_trie :: "Node \<Rightarrow> bool" where
  fresh: "labelled_trie NewNode"
| inserted: "labelled_trie root \<Longrightarrow> [] \<notin> set (Split domain CHR ''.'') \<Longrightarrow>
     labelled_trie (InsertDomain root domain exceptions)"

text \<open>
  The tries among them whose entries carry no empty exception label, as every entry
  does that \<open>ParseDomainWithExceptions\<close> returns; and the property of a trie that no
  child label and no exception label in it is empty.
\<close>

inductive plain_trie :: "Node \<Rightarrow> bool" where
  plain_fresh: "plain_trie NewNode"
| plain_inserted: "plain_trie root \<Longrightarrow> [] \<notin> set (Split domain CHR ''.'') \<Longrightarrow>
     [] \<notin> set exceptions \<Longrightarrow> plain_trie (InsertDomain root domain exceptions)"

fun no_empty_label :: "Node \<Rightarrow> bool" where
  "no_empty_label (Node ch ep ex) \<longleftrightarrow>
     [] \<notin> fst ` set ch \<and> [] \<notin> set ex \<and> (\<forall>(p, c) \<in> set ch. no_empty_label c)"

text \<open>The errors that come from the operating system when a list is saved.\<close>

fun disk_error :: "error \<Rightarrow> bool" where
  "disk_error (MkdirFailed dir e) = True"
| "disk_error (CreateListFileFailed filePath e) = True"
| "disk_error err = False"

text \<open>ASCII text: every byte is below 128.\<close>

definition ascii :: "string \<Rightarrow> bool" where
  "ascii s \<longleftrightarrow> (\<forall>c \<in> set s. (of_char c :: nat) < 128)"

text \<open>A list created from an entry written with a capital letter.\<close>

definition mixed_case_filter :: DNSFilter where
  "mixed_case_filter =
     fst (CreateList NewDNSFilter
            \<lparr>Name = ''l'', Type = ''blocklist'', Domains = [''Example.com'']\<rparr>)"

text \<open>
  A list with an entry whose exception label keeps a leading tab: the comma before
  the tab is cut by \<open>strings.Trim\<close> after \<open>strings.TrimSpace\<close> has run.
\<close>

definition tab_exception_entry :: string where
  "tab_exception_entry = ''d.com !,'' @ [CHR 0x09] @ ''x''"

definition tab_exception_filter :: DNSFilter where
  "tab_exception_filter =
     fst (CreateList NewDNSFilter
            \<lparr>Name = ''l'', Type = ''blocklist'', Domains = [tab_exception_entry, ''other.com'']\<rparr>)"

text \<open>
  The shape every trie has that the program builds: no label twice among the children
  of a node, no exception twice at a node, exceptions only at endpoints.
\<close>

fun wf_trie :: "Node \<Rightarrow> bool" where
  "wf_trie (Node ch ep ex) \<longleftrightarrow>
     distinct (map fst ch) \<and> distinct ex \<and> (\<not> ep \<longrightarrow> ex = []) \<and>
     (\<forall>(p, c) \<in> set ch. wf_trie c)"

text \<open>The exceptions of the endpoint at a path of labels, if there is one.\<close>

fun endpoint_at :: "Node \<Rightarrow> string list \<Rightarrow> string list option" where
  "endpoint_at (Node ch ep ex) [] = (if ep then Some ex else None)"
| "endpoint_at (Node ch ep ex) (p # ps) =
     (case map_of ch p of None \<Rightarrow> None | Some c \<Rightarrow> endpoint_at c ps)"









text \<open>
  The stores that hold a trie built by the program: a fresh root at address 0, and any
  number of insertions through that root.
\<close>

inductive trie_heap :: "hnode list \<Rightarrow> bool" where
  fresh_root: "trie_heap [hNewNode]"
| insertion: "trie_heap h \<Longrightarrow> trie_heap (h_InsertDomain h 0 domain exceptions)"

text \<open>
  The child pointers of a store, with and without their labels, and the properties
  kept by every insertion: a child is allocated after its parent and inside the
  store, no node is the child of two nodes or under two labels, every node but the
  root is somebody's child, and only endpoints carry exceptions.
\<close>

definition child_links :: "hnode list \<Rightarrow> (nat \<times> string \<times> nat) set" where
  "child_links h = {(i, p, c). i < length h \<and> (p, c) \<in> set (hChildren (h ! i))}"

definition heap_edges :: "hnode list \<Rightarrow> (nat \<times> nat) set" where
  "heap_edges h = {(i, c). \<exists>p. (i, p, c) \<in> child_links h}"

definition heap_inv :: "hnode list \<Rightarrow> bool" where
  "heap_inv h \<longleftrightarrow>
     h \<noteq> [] \<and>
     (\<forall>i p c. (i, p, c) \<in> child_links h \<longrightarrow> i < c \<and> c < length h) \<and>
     (\<forall>i p j q c. (i, p, c) \<in> child_links h \<and> (j, q, c) \<in> child_links h \<longrightarrow> i = j \<and> p = q) \<and>
     (\<forall>c < length h. c \<noteq> 0 \<longrightarrow> (\<exists>i p. (i, p, c) \<in> child_links h)) \<and>
     (\<forall>i < length h. hExceptions (h ! i) \<noteq> [] \<longrightarrow> hIsEndpoint (h ! i))"

text \<open>The store after inserting \<open>a.com\<close> with the exception \<open>x\<close> into a fresh root.\<close>

definition sample_heap :: "hnode list" where
  "sample_heap =
     [\<lparr>hChildren = [(''com'', 1)], hIsEndpoint = False, hExceptions = []\<rparr>,
      \<lparr>hChildren = [(''a'', 2)], hIsEndpoint = False, hExceptions = []\<rparr>,
      \<lparr>hChildren = [], hIsEndpoint = True, hExceptions = [''x'']\<rparr>]"

text \<open>
  The store and the value: \<open>repr h a t F\<close> says that the node at address \<open>a\<close> of the
  store \<open>h\<close>, followed through its child pointers, is the trie \<open>t\<close>, and that \<open>F\<close> is the
  set of addresses it occupies; the subtries of two children occupy disjoint addresses
  and none of them the address of their parent.
\<close>

inductive repr :: "hnode list \<Rightarrow> nat \<Rightarrow> Node \<Rightarrow> nat set \<Rightarrow> bool"
  and repr_children ::
    "hnode list \<Rightarrow> (string \<times> nat) list \<Rightarrow> (string \<times> Node) list \<Rightarrow> nat set \<Rightarrow> bool"
where
  at_node: "a < length h \<Longrightarrow> repr_children h (hChildren (h ! a)) ch F \<Longrightarrow> a \<notin> F \<Longrightarrow>
     repr h a (Node ch (hIsEndpoint (h ! a)) (hExceptions (h ! a))) (insert a F)"
| no_child: "repr_children h [] [] {}"
| next_child: "repr h c t F1 \<Longrightarrow> repr_children h cs ts F2 \<Longrightarrow> F1 \<inter> F2 = {} \<Longrightarrow>
     repr_children h ((p, c) # cs) ((p, t) # ts) (F1 \<union> F2)"

text \<open>A store and a trie value built side by side, by the same insertions.\<close>

inductive built :: "hnode list \<Rightarrow> Node \<Rightarrow> bool" where
  built_fresh: "built [hNewNode] NewNode"
| built_insert: "built h t \<Longrightarrow>
     built (h_InsertDomain h 0 domain exceptions) (InsertDomain t domain exceptions)"
section \<open>Strings\<close>

lemma Split_not_Nil [simp]: "Split s c \<noteq> []"
  by (induction s) (auto split: list.splits)

lemma Split_no_sep: "c \<notin> set s \<Longrightarrow> Split s c = [s]"
  by (induction s) auto

lemma Split_append_sep: "Split (a @ c # b) c = Split a c @ Split b c"
proof (induction a)
  case Nil
  show ?case by simp
next
  case (Cons x a)
  have ne: "Split a c \<noteq> []" by simp
  show ?case
  proof (cases "x = c")
    case True
    with Cons show ?thesis by simp
  next
    case False
    with Cons ne show ?thesis by (cases "Split a c") auto
  qed
qed

lemma Split_map:
  assumes "\<And>x. f x = c \<longleftrightarrow> x = c"
  shows "Split (map f s) c = map (map f) (Split s c)"
proof (induction s)
  case Nil
  show ?case by simp
next
  case (Cons x s)
  have ne: "Split s c \<noteq> []" by simp
  then show ?case
    using Cons assms by (cases "Split s c") (auto simp: hd_map map_tl)
qed


lemma index_from_absent: "c \<notin> set s \<Longrightarrow> index_from i s c = - 1"
  by (induction s arbitrary: i) auto

lemma index_from_present: "c \<in> set s \<Longrightarrow> i \<le> index_from i s c"
proof (induction s arbitrary: i)
  case Nil
  then show ?case by simp
next
  case (Cons x s)
  show ?case
  proof (cases "x = c")
    case True
    then show ?thesis by simp
  next
    case False
    with Cons.prems have "c \<in> set s" by simp
    from Cons.IH [OF this, of "i + 1"] False show ?thesis by simp
  qed
qed

lemma Index_pos_iff: "0 < Index s c \<longleftrightarrow> c \<in> set s \<and> hd s \<noteq> c"
proof (cases s)
  case Nil
  then show ?thesis by (simp add: Index_def)
next
  case (Cons x xs)
  show ?thesis
  proof (cases "c \<in> set xs")
    case True
    from index_from_present [OF True, of 1] Cons True show ?thesis
      by (auto simp: Index_def)
  next
    case False
    from index_from_absent [OF False, of 1] Cons False show ?thesis
      by (auto simp: Index_def)
  qed
qed

lemma lower_char_eq_dot [simp]: "lower_char x = CHR ''.'' \<longleftrightarrow> x = CHR ''.''"
  by (simp add: lower_char_def)

lemma lower_char_dot [simp]: "lower_char CHR ''.'' = CHR ''.''"
  by (simp add: lower_char_def)

lemma ToLower_append [simp]: "ToLower (a @ b) = ToLower a @ ToLower b"
  by (simp add: ToLower_def)

lemma ToLower_Cons [simp]: "ToLower (x # a) = lower_char x # ToLower a"
  by (simp add: ToLower_def)

lemma ToLower_Nil [simp]: "ToLower [] = []"
  by (simp add: ToLower_def)

lemma Split_ToLower: "Split (ToLower s) CHR ''.'' = map ToLower (Split s CHR ''.'')"
  unfolding ToLower_def by (rule Split_map) simp

lemma ReverseDomainParts_not_Nil [simp]: "ReverseDomainParts d \<noteq> []"
  by (simp add: ReverseDomainParts_def)

lemma ReverseDomainParts_sub:
  "ReverseDomainParts (a @ CHR ''.'' # d) = ReverseDomainParts d @ ReverseDomainParts a"
  by (simp add: ReverseDomainParts_def Split_append_sep)

lemma ReverseDomainParts_label:
  "CHR ''.'' \<notin> set a \<Longrightarrow> ReverseDomainParts a = [ToLower a]"
  by (simp add: ReverseDomainParts_def Split_ToLower Split_no_sep)

lemma in_Split_cases:
  "x \<in> set s \<Longrightarrow> x = c \<or> (\<exists>l \<in> set (Split s c). x \<in> set l)"
proof (induction s)
  case Nil
  then show ?case by simp
next
  case (Cons y s)
  obtain w ws where sp: "Split s c = w # ws"
    by (cases "Split s c") auto
  from Cons sp show ?case by (cases "y = c") auto
qed

lemma domain_text_chars:
  assumes "domain_text d" "x \<in> set d"
  shows "x \<noteq> CHR ''!'' \<and> \<not> is_space x"
proof -
  from in_Split_cases [OF assms(2), of "CHR ''.''"]
  show ?thesis
  proof
    assume "x = CHR ''.''"
    then show ?thesis by (simp add: is_space_def)
  next
    assume "\<exists>l \<in> set (Split d CHR ''.''). x \<in> set l"
    with assms(1) show ?thesis
      unfolding domain_text_def label_text_def by auto
  qed
qed

lemma trim_unchanged:
  "(s \<noteq> [] \<Longrightarrow> \<not> P (hd s) \<and> \<not> P (last s)) \<Longrightarrow> rev (dropWhile P (rev (dropWhile P s))) = s"
proof (cases s)
  case Nil
  then show ?thesis by simp
next
  case (Cons x xs)
  assume "s \<noteq> [] \<Longrightarrow> \<not> P (hd s) \<and> \<not> P (last s)"
  with Cons have h: "\<not> P x" and l: "\<not> P (last s)" by auto
  from h Cons have d: "dropWhile P s = s" by simp
  from Cons have "rev s \<noteq> []" and "hd (rev s) = last s"
    by (simp_all add: hd_rev)
  then obtain ys where r: "rev s = last s # ys"
    by (cases "rev s") auto
  from l have "dropWhile P (last s # ys) = last s # ys"
    by simp
  then have "dropWhile P (rev s) = rev s"
    by (simp only: r)
  with d show ?thesis by simp
qed

lemma TrimSpace_unchanged:
  "(\<And>x. x \<in> set s \<Longrightarrow> \<not> is_space x) \<Longrightarrow> TrimSpace s = s"
  unfolding TrimSpace_def by (rule trim_unchanged) auto

lemma TrimSpace_snoc_space: "TrimSpace (d @ '' '') = TrimSpace d"
proof -
  have sp: "is_space CHR '' ''" by (simp add: is_space_def)
  show ?thesis
  proof (cases "\<forall>x \<in> set d. is_space x")
    case True
    with sp have "\<forall>x \<in> set (d @ '' ''). is_space x"
      by simp
    then have "dropWhile is_space (d @ '' '') = []"
      by (simp only: dropWhile_eq_Nil_conv)
    moreover from True have "dropWhile is_space d = []"
      by (simp only: dropWhile_eq_Nil_conv)
    ultimately show ?thesis
      by (simp only: TrimSpace_def)
  next
    case False
    then have "dropWhile is_space (d @ '' '') = dropWhile is_space d @ '' ''"
      by (auto simp: dropWhile_append1)
    with sp show ?thesis by (simp add: TrimSpace_def)
  qed
qed

lemma label_text_trim:
  assumes "label_text x"
  shows "Trim (TrimSpace x) '', '' = x"
proof -
  from assms have sp: "TrimSpace x = x"
    by (intro TrimSpace_unchanged) (auto simp: label_text_def)
  from assms have "x \<noteq> []" "hd x \<in> set x" "last x \<in> set x"
    by (auto simp: label_text_def)
  with assms have "hd x \<notin> set '', ''" "last x \<notin> set '', ''"
    unfolding label_text_def by auto
  then have "Trim x '', '' = x"
    unfolding Trim_def by (intro trim_unchanged) simp
  with sp show ?thesis by simp
qed

lemma Parse_with_exception:
  assumes d: "CHR ''!'' \<notin> set d" and x: "CHR ''!'' \<notin> set x"
    and tr: "Trim (TrimSpace x) '', '' = x" and ne: "x \<noteq> []"
  shows "ParseDomainWithExceptions (d @ '' !'' @ x) = (TrimSpace d, [x])"
proof -
  have "hd (d @ '' !'' @ x) \<noteq> CHR ''!''"
    using d by (cases d) auto
  then have pos: "0 < Index (d @ '' !'' @ x) CHR ''!''"
    by (simp add: Index_pos_iff)
  have "Split (d @ '' !'' @ x) CHR ''!'' = Split ((d @ '' '') @ CHR ''!'' # x) CHR ''!''"
    by simp
  also have "\<dots> = Split (d @ '' '') CHR ''!'' @ Split x CHR ''!''"
    by (rule Split_append_sep)
  also have "\<dots> = [d @ '' '', x]"
    using d x by (simp add: Split_no_sep)
  finally have "Split (d @ '' !'' @ x) CHR ''!'' = [d @ '' '', x]" .
  with pos tr ne show ?thesis
    by (simp add: ParseDomainWithExceptions_def TrimSpace_snoc_space Let_def)
qed

lemma Parse_without_bang:
  "CHR ''!'' \<notin> set entry \<Longrightarrow> ParseDomainWithExceptions entry = (entry, [])"
  by (simp add: ParseDomainWithExceptions_def Index_pos_iff)

lemma in_update_cases:
  "(q, c) \<in> set (AList.update p v ch) \<Longrightarrow> (q, c) = (p, v) \<or> (q, c) \<in> set ch"
  by (induction ch) (auto split: if_splits)

section \<open>Lookup in the trie\<close>

lemma set_add_exceptions [simp]: "set (add_exceptions cur es) = set cur \<union> set es"
  by (induction es arbitrary: cur) auto

lemma IsEndpoint_insert_parts_Cons [simp]:
  "IsEndpoint (insert_parts n (p # ps) es) = IsEndpoint n"
  by (cases n) (simp add: Let_def)

lemma match_single_entry:
  "ps \<noteq> [] \<Longrightarrow>
     match_parts (insert_parts NewNode ps es) (ps @ rest) = (rest = [] \<or> hd rest \<notin> set es)"
proof (induction ps)
  case Nil
  then show ?case by simp
next
  case (Cons p ps)
  show ?case
  proof (cases ps)
    case Nil
    then show ?thesis
      by (cases rest) (simp_all add: NewNode_def update_conv')
  next
    case (Cons q qs)
    with Cons.IH have "match_parts (insert_parts NewNode ps es) (ps @ rest) = (rest = [] \<or> hd rest \<notin> set es)"
      by simp
    moreover have "\<not> IsEndpoint (insert_parts NewNode ps es)"
      using Cons by (simp add: NewNode_def)
    ultimately show ?thesis
      by (simp add: NewNode_def)
  qed
qed


lemma decided_at_Suc:
  assumes "map_of (Children root) p = Some ch" "\<not> IsEndpoint ch"
  shows "decided_at root (p # rest) (Suc k) = decided_at ch rest k"
proof -
  have "(\<forall>j<Suc k. \<exists>c. descend root (take (Suc j) (p # rest)) = Some c \<and> \<not> IsEndpoint c)
        = (\<forall>j<k. \<exists>c. descend ch (take (Suc j) rest) = Some c \<and> \<not> IsEndpoint c)"
    using assms by (auto simp: less_Suc_eq_0_disj)
  then show ?thesis
    using assms unfolding decided_at_def by simp
qed

lemma decided_at_0:
  "decided_at root (p # rest) 0 =
     (\<exists>c. map_of (Children root) p = Some c \<and> IsEndpoint c \<and>
          (rest \<noteq> [] \<longrightarrow> hd rest \<notin> set (Exceptions c)))"
  unfolding decided_at_def by (cases rest) (auto split: option.splits)

lemma decided_at_pos_needs_plain:
  assumes "decided_at root (p # rest) (Suc k)"
  shows "\<exists>c. map_of (Children root) p = Some c \<and> \<not> IsEndpoint c"
proof -
  from assms have "\<exists>c. descend root (take (Suc 0) (p # rest)) = Some c \<and> \<not> IsEndpoint c"
    unfolding decided_at_def by blast
  then show ?thesis by (auto split: option.splits)
qed

lemma match_parts_first_endpoint:
  "match_parts root parts = (\<exists>k. decided_at root parts k)"
proof (induction parts arbitrary: root)
  case Nil
  show ?case by (simp add: decided_at_def)
next
  case (Cons p rest)
  show ?case
  proof (cases "map_of (Children root) p")
    case None
    have "\<not> decided_at root (p # rest) k" for k
      using None by (cases k) (auto simp: decided_at_0 dest: decided_at_pos_needs_plain)
    with None show ?thesis by simp
  next
    case (Some ch)
    show ?thesis
    proof (cases "IsEndpoint ch")
      case True
      have "decided_at root (p # rest) k \<longleftrightarrow> k = 0 \<and> (rest \<noteq> [] \<longrightarrow> hd rest \<notin> set (Exceptions ch))" for k
        using Some True by (cases k) (auto simp: decided_at_0 dest: decided_at_pos_needs_plain)
      then show ?thesis
        using Some True by (cases rest) auto
    next
      case False
      have "(\<exists>k. decided_at root (p # rest) k) = (\<exists>k. decided_at ch rest k)"
      proof
        assume "\<exists>k. decided_at root (p # rest) k"
        then obtain k where k: "decided_at root (p # rest) k" ..
        with Some False obtain k' where "k = Suc k'"
          by (cases k) (auto simp: decided_at_0)
        with k Some False show "\<exists>k. decided_at ch rest k"
          by (auto simp: decided_at_Suc)
      next
        assume "\<exists>k. decided_at ch rest k"
        then show "\<exists>k. decided_at root (p # rest) k"
          using decided_at_Suc [OF Some False] by blast
      qed
      with Cons.IH [of ch] Some False show ?thesis by simp
    qed
  qed
qed


text \<open>
  C1: in the trie built from the single entry \<open>d !x\<close>, for a domain \<open>d\<close> and an exception
  label \<open>x\<close>, the lookup is true for \<open>d\<close> and for \<open>a.d\<close> with a label \<open>a \<noteq> x\<close>, and false
  for \<open>x.d\<close> and for every \<open>deep.x.d\<close>.  In general the lookup walks the reversed
  labels, and is true exactly when the first endpoint it meets is not followed by one
  of that endpoint's exception labels; a missing child before any endpoint, or no
  endpoint on the path, gives false.
\<close>

theorem single_exception_entry_match:
  assumes d: "domain_text d" and x: "label_text x" "case_folded x"
    and a: "label_text a" "case_folded a" "a \<noteq> x"
  shows "IsDomainBlocked (insert_entries NewNode [d @ '' !'' @ x]) d \<and>
         IsDomainBlocked (insert_entries NewNode [d @ '' !'' @ x]) (a @ ''.'' @ d) \<and>
         \<not> IsDomainBlocked (insert_entries NewNode [d @ '' !'' @ x]) (x @ ''.'' @ d) \<and>
         \<not> IsDomainBlocked (insert_entries NewNode [d @ '' !'' @ x]) (deep @ ''.'' @ x @ ''.'' @ d) \<and>
         (\<forall>root name. IsDomainBlocked root name =
            (\<exists>k. decided_at root (ReverseDomainParts name) k))"
proof -
  define t where "t = insert_entries NewNode [d @ '' !'' @ x]"
  let ?ps = "ReverseDomainParts d"
  have dch: "CHR ''!'' \<notin> set d" and dsp: "TrimSpace d = d"
    using domain_text_chars [OF d] by (auto intro: TrimSpace_unchanged)
  have xch: "CHR ''!'' \<notin> set x" "CHR ''.'' \<notin> set x" "x \<noteq> []"
    using x(1) by (auto simp: label_text_def)
  have ach: "CHR ''.'' \<notin> set a"
    using a(1) by (auto simp: label_text_def)
  have "ParseDomainWithExceptions (d @ '' !'' @ x) = (d, [x])"
    using Parse_with_exception [OF dch xch(1) label_text_trim [OF x(1)] xch(3)] dsp by simp
  then have t: "t = insert_parts NewNode ?ps [x]"
    by (simp add: t_def InsertDomain_def)
  have m: "IsDomainBlocked t (s @ ''.'' @ d) = (hd (ReverseDomainParts s) \<noteq> x)" for s
    unfolding IsDomainBlocked_def t using match_single_entry [of ?ps "[x]" "ReverseDomainParts s"]
    by (simp add: ReverseDomainParts_sub)
  have "IsDomainBlocked t d"
    unfolding IsDomainBlocked_def t using match_single_entry [of ?ps "[x]" "[]"] by simp
  moreover have "IsDomainBlocked t (a @ ''.'' @ d)"
    using a ach by (simp only: m) (simp add: ReverseDomainParts_label case_folded_def)
  moreover have "\<not> IsDomainBlocked t (x @ ''.'' @ d)"
    using x xch by (simp only: m) (simp add: ReverseDomainParts_label case_folded_def)
  moreover have "\<not> IsDomainBlocked t (deep @ ''.'' @ x @ ''.'' @ d)"
    using m [of "deep @ ''.'' @ x"] x xch
    by (simp add: ReverseDomainParts_sub ReverseDomainParts_label case_folded_def)
  ultimately show ?thesis
    unfolding t_def by (simp add: IsDomainBlocked_def match_parts_first_endpoint)
qed

theorem single_exception_entry_match_witness:
  "domain_text ''example.com'' \<and> label_text ''mail'' \<and> case_folded ''mail'' \<and>
   label_text ''tracker'' \<and> case_folded ''tracker'' \<and>
   IsDomainBlocked (insert_entries NewNode [''example.com !mail'']) ''example.com'' \<and>
   IsDomainBlocked (insert_entries NewNode [''example.com !mail'']) ''tracker.example.com'' \<and>
   \<not> IsDomainBlocked (insert_entries NewNode [''example.com !mail'']) ''mail.example.com'' \<and>
   \<not> IsDomainBlocked (insert_entries NewNode [''example.com !mail'']) ''deep.mail.example.com''"
proof -
  have d: "domain_text ''example.com''"
    by (simp add: domain_text_def label_text_def is_space_def)
  have x: "label_text ''mail''" "case_folded ''mail''"
    by (simp_all add: label_text_def case_folded_def is_space_def lower_char_def)
  have a: "label_text ''tracker''" "case_folded ''tracker''" "''tracker'' \<noteq> ''mail''"
    by (simp_all add: label_text_def case_folded_def is_space_def lower_char_def)
  have e: "''example.com'' @ '' !'' @ ''mail'' = ''example.com !mail''"
    "''tracker'' @ ''.'' @ ''example.com'' = ''tracker.example.com''"
    "''mail'' @ ''.'' @ ''example.com'' = ''mail.example.com''"
    "''deep'' @ ''.'' @ ''mail.example.com'' = ''deep.mail.example.com''"
    by simp_all
  note m = single_exception_entry_match [OF d x a, of "''deep''", unfolded e]
  show ?thesis
    by (intro conjI d x a(1,2) m [THEN conjunct1] m [THEN conjunct2, THEN conjunct1]
          m [THEN conjunct2, THEN conjunct2, THEN conjunct1]
          m [THEN conjunct2, THEN conjunct2, THEN conjunct2, THEN conjunct1])
qed

section \<open>The policy evaluator\<close>

lemma blocked_by_any_iff:
  "blocked_by_any tries names domain \<longleftrightarrow>
     (\<exists>n \<in> set names. \<exists>t. map_of tries n = Some t \<and> IsDomainBlocked t domain)"
  by (induction names) (auto split: option.splits)

lemma allowed_by_any_iff:
  "allowed_by_any tries names domain \<longleftrightarrow>
     (\<exists>n \<in> set names. \<exists>t. map_of tries n = Some t \<and> IsDomainBlocked t domain)"
  by (induction names) (auto split: option.splits simp: IsDomainAllowed_def)

text \<open>
  C2: \<open>CheckDomain\<close> denies a client without policy; in blocklist mode it denies exactly
  when some referenced blocklist that is loaded matches the name (a reference
  without a trie is skipped); in whitelist mode it allows exactly when some referenced
  whitelist that is loaded matches; any other mode is denied.
\<close>

theorem CheckDomain_decides:
  "CheckDomain df ip name =
     (case map_of (Clients df) ip of
        None \<Rightarrow> False
      | Some policy \<Rightarrow>
          if Mode policy = ''blocklist''
          then \<not> (\<exists>n \<in> set (BlocklistRefs policy).
                   \<exists>t. map_of (BlocklistTries df) n = Some t \<and> IsDomainBlocked t name)
          else if Mode policy = ''whitelist''
          then (\<exists>n \<in> set (WhitelistRefs policy).
                   \<exists>t. map_of (WhitelistTries df) n = Some t \<and> IsDomainBlocked t name)
          else False)"
  by (auto simp add: CheckDomain_def blocked_by_any_iff allowed_by_any_iff split: option.splits)

lemma S1_lookups:
  "IsDomainBlocked (Node [(''com'', Node [(''example'', Node [] True [''mail''])] False [])] False [])
     ''tracker.example.com''"
  "\<not> IsDomainBlocked (Node [(''com'', Node [(''example'', Node [] True [''mail''])] False [])] False [])
     ''mail.example.com''"
  by (simp_all add: IsDomainBlocked_def ReverseDomainParts_def ToLower_def lower_char_def)

theorem CheckDomain_decides_witness:
  "CheckDomain S1_filter ''10.0.0.1'' ''tracker.example.com'' = False \<and>
   CheckDomain S1_filter ''10.0.0.1'' ''mail.example.com'' = True \<and>
   CheckDomain S1_filter ''10.0.0.99'' ''example.com'' = False"
  using CheckDomain_decides [of S1_filter "''10.0.0.1''" "''tracker.example.com''"]
    CheckDomain_decides [of S1_filter "''10.0.0.1''" "''mail.example.com''"]
    CheckDomain_decides [of S1_filter "''10.0.0.99''" "''example.com''"]
  by (simp add: S1_filter_def S1_lookups)

section \<open>Queries with a trailing dot\<close>

lemma Children_insert_parts_other:
  "ps = [] \<or> hd ps \<noteq> q \<Longrightarrow>
     map_of (Children (insert_parts n ps es)) q = map_of (Children n) q"
  by (cases n; cases ps) (auto simp: Let_def update_conv')

lemma last_Split_ToLower:
  "last (Split (ToLower s) CHR ''.'') = [] \<longleftrightarrow> last (Split s CHR ''.'') = []"
proof -
  have "ToLower x = [] \<longleftrightarrow> x = []" for x
    by (simp add: ToLower_def)
  then show ?thesis
    by (simp add: Split_ToLower last_map)
qed

lemma hd_ReverseDomainParts:
  "hd (ReverseDomainParts s) = [] \<longleftrightarrow> last (Split s CHR ''.'') = []"
  by (simp add: ReverseDomainParts_def hd_rev last_Split_ToLower)

lemma labelled_trie_no_empty_child:
  "labelled_trie t \<Longrightarrow> map_of (Children t) [] = None"
proof (induction rule: labelled_trie.induct)
  case fresh
  show ?case by (simp add: NewNode_def)
next
  case (inserted root domain exceptions)
  have "last (Split domain CHR ''.'') \<in> set (Split domain CHR ''.'')"
    by simp
  with inserted.hyps(2) have "last (Split domain CHR ''.'') \<noteq> []"
    by metis
  then have "hd (ReverseDomainParts domain) \<noteq> []"
    by (simp add: hd_ReverseDomainParts)
  with inserted.IH show ?case
    by (simp add: InsertDomain_def Children_insert_parts_other)
qed

lemma no_match_without_first_child:
  assumes "map_of (Children t) [] = None" "last (Split name CHR ''.'') = []"
  shows "\<not> IsDomainBlocked t name"
proof -
  from assms(2) have "hd (ReverseDomainParts name) = []"
    by (simp add: hd_ReverseDomainParts)
  then obtain rest where "ReverseDomainParts name = [] # rest"
    by (cases "ReverseDomainParts name") auto
  with assms(1) show ?thesis
    by (simp add: IsDomainBlocked_def)
qed

lemma ReverseDomainParts_leading_dot:
  "ReverseDomainParts (CHR ''.'' # name) = ReverseDomainParts name @ [[]]"
  by (simp add: ReverseDomainParts_def)

lemma no_empty_label_NewNode [simp]: "no_empty_label NewNode"
  by (simp add: NewNode_def)

lemma no_empty_label_insert_parts:
  "no_empty_label t \<Longrightarrow> [] \<notin> set ps \<Longrightarrow> [] \<notin> set es \<Longrightarrow>
     no_empty_label (insert_parts t ps es)"
proof (induction ps arbitrary: t)
  case Nil
  then show ?case by (cases t) simp
next
  case (Cons p ps)
  obtain ch ep ex where t: "t = Node ch ep ex" by (cases t)
  let ?child = "case map_of ch p of None \<Rightarrow> NewNode | Some c \<Rightarrow> c"
  from Cons.prems(1) t have "no_empty_label ?child"
    by (auto split: option.splits dest: map_of_SomeD)
  moreover from Cons.prems(2) have "[] \<notin> set ps" by simp
  ultimately have child: "no_empty_label (insert_parts ?child ps es)"
    using Cons.prems(3) by (rule Cons.IH)
  from Cons.prems(2) have p: "p \<noteq> []" by auto
  have keys: "fst ` set (AList.update p v ch) = insert p (fst ` set ch)" for v
    by (induction ch) auto
  let ?new = "insert_parts ?child ps es"
  from Cons.prems(1) t have old: "\<forall>(q, c) \<in> set ch. no_empty_label c" and
    root: "[] \<notin> fst ` set ch" "[] \<notin> set ex"
    by simp_all
  have "no_empty_label c" if "(q, c) \<in> set (AList.update p ?new ch)" for q c
    using in_update_cases [OF that] child old by auto
  then have "\<forall>(q, c) \<in> set (AList.update p ?new ch). no_empty_label c"
    by auto
  with root p t show ?case
    by (simp add: Let_def keys)
qed


lemma Split_ToLower_empty:
  "[] \<in> set (Split (ToLower s) CHR ''.'') \<longleftrightarrow> [] \<in> set (Split s CHR ''.'')"
  unfolding Split_ToLower
proof
  assume "[] \<in> set (map ToLower (Split s CHR ''.''))"
  then have "[] \<in> ToLower ` set (Split s CHR ''.'')" by simp
  then obtain x where x: "x \<in> set (Split s CHR ''.'')" and e: "[] = ToLower x"
    by (rule imageE)
  from e have "x = []" by (simp add: ToLower_def)
  with x show "[] \<in> set (Split s CHR ''.'')" by simp
next
  assume "[] \<in> set (Split s CHR ''.'')"
  then have "ToLower [] \<in> ToLower ` set (Split s CHR ''.'')" by (rule imageI)
  then show "[] \<in> set (map ToLower (Split s CHR ''.''))" by simp
qed

lemma plain_trie_no_empty_label: "plain_trie t \<Longrightarrow> no_empty_label t"
proof (induction rule: plain_trie.induct)
  case plain_fresh
  show ?case by simp
next
  case (plain_inserted root domain exceptions)
  from plain_inserted.hyps(2) have "[] \<notin> set (ReverseDomainParts domain)"
    by (simp add: ReverseDomainParts_def Split_ToLower_empty)
  with plain_inserted.IH plain_inserted.hyps(3) show ?case
    unfolding InsertDomain_def by (intro no_empty_label_insert_parts)
qed

lemma plain_trie_labelled: "plain_trie t \<Longrightarrow> labelled_trie t"
  by (induction rule: plain_trie.induct) (auto intro: labelled_trie.intros)

lemma match_parts_snoc_empty:
  "no_empty_label t \<Longrightarrow> ps \<noteq> [] \<Longrightarrow> match_parts t (ps @ [[]]) = match_parts t ps"
proof (induction ps arbitrary: t)
  case Nil
  then show ?case by simp
next
  case (Cons p ps)
  obtain ch ep ex where t: "t = Node ch ep ex" by (cases t)
  show ?case
  proof (cases "map_of ch p")
    case None
    with t show ?thesis by simp
  next
    case (Some c)
    obtain ch' ep' ex' where c: "c = Node ch' ep' ex'" by (cases c)
    from Some have "(p, c) \<in> set ch" by (rule map_of_SomeD)
    with Cons.prems(1) t have inv: "no_empty_label c" by auto
    show ?thesis
    proof (cases ps)
      case Nil
      from inv c have "[] \<notin> set ex'" and "map_of ch' [] = None"
        by (simp_all add: map_of_eq_None_iff)
      with Nil Some t c show ?thesis by simp
    next
      case (Cons q qs)
      then have "ps \<noteq> []" by simp
      from Cons.IH [OF inv this] Some t Cons show ?thesis by simp
    qed
  qed
qed

lemma leading_dot_same:
  assumes "plain_trie t"
  shows "IsDomainBlocked t (''.'' @ name) = IsDomainBlocked t name"
  using match_parts_snoc_empty [OF plain_trie_no_empty_label [OF assms], of "ReverseDomainParts name"]
  by (simp add: IsDomainBlocked_def ReverseDomainParts_leading_dot)

lemma collect_exceptions_no_empty: "[] \<notin> set (collect_exceptions ps)"
  by (induction ps) (simp_all add: Let_def)

lemma Parse_no_empty_exception: "[] \<notin> set (snd (ParseDomainWithExceptions entry))"
  by (simp add: ParseDomainWithExceptions_def Let_def collect_exceptions_no_empty)

lemma plain_insert_entries:
  "plain_trie root \<Longrightarrow>
   \<forall>e \<in> set es. [] \<notin> set (Split (fst (ParseDomainWithExceptions e)) CHR ''.'') \<Longrightarrow>
   plain_trie (insert_entries root es)"
proof (induction es arbitrary: root)
  case Nil
  then show ?case by simp
next
  case (Cons e es)
  obtain d xs where e: "ParseDomainWithExceptions e = (d, xs)"
    by (cases "ParseDomainWithExceptions e")
  from Parse_no_empty_exception [of e] e have "[] \<notin> set xs" by simp
  moreover from Cons.prems(2) e have "[] \<notin> set (Split d CHR ''.'')" by simp
  ultimately have "plain_trie (InsertDomain root d xs)"
    using Cons.prems(1) by (intro plain_trie.intros)
  moreover from Cons.prems(2) have
    "\<forall>e \<in> set es. [] \<notin> set (Split (fst (ParseDomainWithExceptions e)) CHR ''.'')"
    by simp
  ultimately have "plain_trie (insert_entries (InsertDomain root d xs) es)"
    by (rule Cons.IH)
  then show ?case by (simp add: e)
qed

text \<open>
  C3 (as amended): a query whose last label is empty (the empty name, or a name with a
  trailing dot as the DNS handler passes it) matches no trie built from domains with
  non-empty labels; so \<open>CheckDomain\<close> allows it for a client in blocklist mode whose
  referenced blocklists, as far as they are loaded, are such tries, and \<open>ServeDNS\<close>
  passes the request on.  A query that begins with a dot is matched exactly like the
  name after the dot, by every such trie whose entries carry no empty exception
  label; \<open>ParseDomainWithExceptions\<close> never returns one, so the tries that the loop
  of \<open>CreateList\<close>, \<open>UpdateList\<close> and \<open>AddDomains\<close> builds from ASCII entries with
  non-empty domain labels are of this kind.
\<close>

theorem trailing_dot_never_matches:
  "(labelled_trie t \<and> last (Split name CHR ''.'') = [] \<longrightarrow> \<not> IsDomainBlocked t name) \<and>
   (map_of (Clients df) ip = Some policy \<and> Mode policy = ''blocklist'' \<and>
    (\<forall>n \<in> set (BlocklistRefs policy). \<forall>r. map_of (BlocklistTries df) n = Some r \<longrightarrow>
       labelled_trie r) \<and>
    last (Split query CHR ''.'') = [] \<longrightarrow>
      CheckDomain df ip query = True \<and> ServeDNS (Some df) ip query = NextPlugin) \<and>
   (plain_trie u \<longrightarrow> labelled_trie u \<and> IsDomainBlocked u (''.'' @ other) = IsDomainBlocked u other) \<and>
   [] \<notin> set (snd (ParseDomainWithExceptions entry)) \<and>
   (plain_trie root \<and>
    (\<forall>e \<in> set es. ascii e \<and> [] \<notin> set (Split (fst (ParseDomainWithExceptions e)) CHR ''.'')) \<longrightarrow>
      plain_trie (insert_entries root es))"
proof (intro conjI impI)
  assume "labelled_trie t \<and> last (Split name CHR ''.'') = []"
  then show "\<not> IsDomainBlocked t name"
    using labelled_trie_no_empty_child [of t] no_match_without_first_child [of t name] by simp
next
  assume a: "map_of (Clients df) ip = Some policy \<and> Mode policy = ''blocklist'' \<and>
    (\<forall>n \<in> set (BlocklistRefs policy). \<forall>r. map_of (BlocklistTries df) n = Some r \<longrightarrow>
       labelled_trie r) \<and>
    last (Split query CHR ''.'') = []"
  then have client: "map_of (Clients df) ip = Some policy" "Mode policy = ''blocklist''"
    and tries: "\<forall>n \<in> set (BlocklistRefs policy). \<forall>r. map_of (BlocklistTries df) n = Some r \<longrightarrow>
       labelled_trie r"
    and query: "last (Split query CHR ''.'') = []"
    by simp_all
  have none: "\<not> IsDomainBlocked r query" if "labelled_trie r" for r
    using labelled_trie_no_empty_child [OF that] query by (rule no_match_without_first_child)
  have "\<not> blocked_by_any (BlocklistTries df) names query"
    if "\<forall>n \<in> set names. \<forall>r. map_of (BlocklistTries df) n = Some r \<longrightarrow> labelled_trie r"
    for names
    using that
  proof (induction names)
    case Nil
    show ?case by simp
  next
    case (Cons n names)
    show ?case
    proof (cases "map_of (BlocklistTries df) n")
      case None
      with Cons show ?thesis by simp
    next
      case (Some r)
      with Cons.prems have "labelled_trie r" by simp
      with none Some Cons show ?thesis by simp
    qed
  qed
  from this [OF tries] client have allowed: "CheckDomain df ip query = True"
    by (simp add: CheckDomain_def)
  then show "CheckDomain df ip query = True" .
  from allowed show "ServeDNS (Some df) ip query = NextPlugin"
    by (simp add: ServeDNS_def)
next
  assume "plain_trie u"
  then show "labelled_trie u" by (rule plain_trie_labelled)
next
  assume "plain_trie u"
  then show "IsDomainBlocked u (''.'' @ other) = IsDomainBlocked u other"
    by (rule leading_dot_same)
next
  show "[] \<notin> set (snd (ParseDomainWithExceptions entry))"
    by (rule Parse_no_empty_exception)
next
  assume a: "plain_trie root \<and>
    (\<forall>e \<in> set es. ascii e \<and> [] \<notin> set (Split (fst (ParseDomainWithExceptions e)) CHR ''.''))"
  then have "\<forall>e \<in> set es. [] \<notin> set (Split (fst (ParseDomainWithExceptions e)) CHR ''.'')"
    by simp
  with a show "plain_trie (insert_entries root es)"
    by (intro plain_insert_entries) simp_all
qed

lemma S1_plain:
  "plain_trie (Node [(''com'', Node [(''example'', Node [] True [''mail''])] False [])] False [])"
proof -
  have "plain_trie (InsertDomain NewNode ''example.com'' [''mail''])"
    by (intro plain_trie.intros) simp_all
  also have "InsertDomain NewNode ''example.com'' [''mail''] =
      Node [(''com'', Node [(''example'', Node [] True [''mail''])] False [])] False []"
    by (simp add: InsertDomain_def ReverseDomainParts_def NewNode_def lower_char_def)
  finally show ?thesis .
qed

theorem trailing_dot_never_matches_witness:
  "labelled_trie (Node [(''com'', Node [(''example'', Node [] True [''mail''])] False [])] False []) \<and>
   last (Split ''example.com.'' CHR ''.'') = [] \<and>
   \<not> IsDomainBlocked (Node [(''com'', Node [(''example'', Node [] True [''mail''])] False [])] False [])
       ''example.com.'' \<and>
   map_of (Clients S1_filter) ''10.0.0.1'' \<noteq> None \<and>
   CheckDomain S1_filter ''10.0.0.1'' ''example.com.'' = True \<and>
   ServeDNS (Some S1_filter) ''10.0.0.1'' ''example.com.'' = NextPlugin \<and>
   plain_trie (Node [(''com'', Node [(''example'', Node [] True [''mail''])] False [])] False []) \<and>
   IsDomainBlocked (Node [(''com'', Node [(''example'', Node [] True [''mail''])] False [])] False [])
       ''.example.com'' \<and>
   ascii ''example.com !mail'' \<and>
   plain_trie (insert_entries NewNode [''example.com !mail''])"
proof -
  let ?t = "Node [(''com'', Node [(''example'', Node [] True [''mail''])] False [])] False []"
  let ?p = "\<lparr>IP = [], BlocklistRefs = [''ads''], WhitelistRefs = [], Mode = ''blocklist''\<rparr>"
  note m = trailing_dot_never_matches [of ?t "''example.com.''" S1_filter "''10.0.0.1''" ?p
      "''example.com.''" ?t "''example.com''" "''example.com !mail''" NewNode
      "[''example.com !mail'']"]
  have plain: "plain_trie ?t" by (rule S1_plain)
  have lab: "labelled_trie ?t"
    by (rule conjunct1 [OF mp [OF m [THEN conjunct2, THEN conjunct2, THEN conjunct1] plain]])
  have name: "last (Split ''example.com.'' CHR ''.'') = []"
    by simp
  have c1: "\<not> IsDomainBlocked ?t ''example.com.''"
    by (rule mp [OF m [THEN conjunct1] conjI [OF lab name]])
  have client: "map_of (Clients S1_filter) ''10.0.0.1'' = Some ?p"
    by (simp add: S1_filter_def NewDNSFilter_def)
  have mode: "Mode ?p = ''blocklist''"
    by simp
  have tries: "\<forall>n \<in> set (BlocklistRefs ?p). \<forall>r. map_of (BlocklistTries S1_filter) n = Some r \<longrightarrow>
       labelled_trie r"
    using lab by (simp add: S1_filter_def NewDNSFilter_def)
  note c2 = mp [OF m [THEN conjunct2, THEN conjunct1]
      conjI [OF client conjI [OF mode conjI [OF tries name]]]]
  have same: "IsDomainBlocked ?t (''.'' @ ''example.com'') = IsDomainBlocked ?t ''example.com''"
    by (rule conjunct2 [OF mp [OF m [THEN conjunct2, THEN conjunct2, THEN conjunct1] plain]])
  have "IsDomainBlocked ?t ''example.com''"
    by code_simp
  with same have c3: "IsDomainBlocked ?t ''.example.com''"
    by simp
  have asc: "ascii ''example.com !mail''"
    by (simp add: ascii_def)
  have labels: "\<forall>e \<in> set [''example.com !mail''].
      ascii e \<and> [] \<notin> set (Split (fst (ParseDomainWithExceptions e)) CHR ''.'')"
  proof -
    have "ParseDomainWithExceptions ''example.com !mail'' = (''example.com'', [''mail''])"
      by code_simp
    with asc show ?thesis by simp
  qed
  have c5: "plain_trie (insert_entries NewNode [''example.com !mail''])"
    by (rule mp [OF m [THEN conjunct2, THEN conjunct2, THEN conjunct2, THEN conjunct2]
          conjI [OF plain_trie.plain_fresh labels]])
  from client have c0: "map_of (Clients S1_filter) ''10.0.0.1'' \<noteq> None"
    by simp
  show ?thesis
    by (intro conjI lab name c1 c0 c2 [THEN conjunct1] c2 [THEN conjunct2] plain c3 asc c5)
qed

theorem leading_dot_matches_counterexample:
  "[] \<notin> set (Split (fst (ParseDomainWithExceptions ''example.com'')) CHR ''.'') \<and>
   hd (Split ''.example.com'' CHR ''.'') = [] \<and>
   IsDomainBlocked (insert_entries NewNode [''example.com'']) ''.example.com'' \<and>
   CheckDomain
     (fst (CreateClient
        (fst (CreateList NewDNSFilter
                \<lparr>Name = ''ads'', Type = ''blocklist'', Domains = [''example.com'']\<rparr>))
        \<lparr>IP = ''10.0.0.1'', BlocklistRefs = [''ads''], WhitelistRefs = [], Mode = ''blocklist''\<rparr>))
     ''10.0.0.1'' ''.example.com'' = False"
  by code_simp


section \<open>Deleting a list\<close>

lemma filter_same_length: "length (filter P xs) = length xs \<Longrightarrow> filter P xs = xs"
proof (induction xs)
  case Nil
  then show ?case by simp
next
  case (Cons x xs)
  have le: "length (filter P xs) \<le> length xs"
    by (rule length_filter_le)
  show ?case
  proof (cases "P x")
    case True
    with Cons show ?thesis by simp
  next
    case False
    with Cons.prems le show ?thesis by simp
  qed
qed

lemma strip_reference_eq:
  "strip_reference c n t = (strip_one n t c, strip_one n t c \<noteq> c)"
proof (cases "t = ''blocklist''")
  case True
  let ?new = "removeFromSlice (BlocklistRefs c) n"
  show ?thesis
  proof (cases "length ?new = length (BlocklistRefs c)")
    case same: True
    then have "?new = BlocklistRefs c"
      unfolding removeFromSlice_def by (rule filter_same_length)
    then show ?thesis
      using True by (simp add: strip_reference_def strip_one_def)
  next
    case False
    then have "c\<lparr>BlocklistRefs := ?new\<rparr> \<noteq> c"
      by (metis ClientConfig.select_convs(2) ClientConfig.surjective ClientConfig.update_convs(2))
    then show ?thesis
      using True False by (simp add: strip_reference_def strip_one_def)
  qed
next
  case notb: False
  let ?new = "removeFromSlice (WhitelistRefs c) n"
  show ?thesis
  proof (cases "length ?new = length (WhitelistRefs c)")
    case same: True
    then have "?new = WhitelistRefs c"
      unfolding removeFromSlice_def by (rule filter_same_length)
    then show ?thesis
      using notb by (simp add: strip_reference_def strip_one_def)
  next
    case False
    then have "c\<lparr>WhitelistRefs := ?new\<rparr> \<noteq> c"
      by (metis ClientConfig.select_convs(3) ClientConfig.surjective ClientConfig.update_convs(3))
    then show ?thesis
      using notb False by (simp add: strip_reference_def strip_one_def)
  qed
qed

lemma strip_references_eq:
  "strip_references cs n t =
     (map (\<lambda>(ip, c). (ip, strip_one n t c)) cs, map (\<lambda>(ip, c). (ip, strip_one n t c)) cs \<noteq> cs)"
  by (induction cs) (auto simp: strip_reference_eq)

lemma strip_one_clean:
  "n \<notin> set (if t = ''blocklist'' then BlocklistRefs (strip_one n t c) else WhitelistRefs (strip_one n t c))"
  by (simp add: strip_one_def removeFromSlice_def)

lemma SaveClientConfig_fields:
  "Clients (fst (SaveClientConfig df)) = Clients df"
  "target (fst (SaveClientConfig df)) = target df"
  "remove_error (fst (SaveClientConfig df)) = remove_error df"
  "BlocklistDir (fst (SaveClientConfig df)) = BlocklistDir df"
  "WhitelistDir (fst (SaveClientConfig df)) = WhitelistDir df"
  by (simp_all add: SaveClientConfig_def put_file_def Let_def split: option.splits)

lemma SaveClientConfig_files:
  "files (fst (SaveClientConfig df)) =
     (if mkdir_error df (filepath_Dir (ConfigPath df)) \<noteq> None \<or>
         create_error df (ConfigPath df) \<noteq> None
      then files df
      else AList.update (target df (ConfigPath df))
             (if write_error df (ConfigPath df) \<noteq> None
              then Unfinished (ClientDocument (Clients df))
              else Written (ClientDocument (Clients df)))
             (files df))"
  by (auto simp: SaveClientConfig_def put_file_def Let_def split: option.splits)

lemma repair_fields:
  "Clients (removeListReferencesFromClients df n t) =
     map (\<lambda>(ip, c). (ip, strip_one n t c)) (Clients df)"
  "target (removeListReferencesFromClients df n t) = target df"
  "remove_error (removeListReferencesFromClients df n t) = remove_error df"
  "BlocklistDir (removeListReferencesFromClients df n t) = BlocklistDir df"
  "WhitelistDir (removeListReferencesFromClients df n t) = WhitelistDir df"
  by (simp_all add: removeListReferencesFromClients_def strip_references_eq Let_def
        SaveClientConfig_fields)


lemma repair_files:
  "files (removeListReferencesFromClients df n t) =
     (if map (\<lambda>(ip, c). (ip, strip_one n t c)) (Clients df) = Clients df then files df
      else if mkdir_error df (filepath_Dir (ConfigPath df)) \<noteq> None \<or>
              create_error df (ConfigPath df) \<noteq> None
      then files df
      else AList.update (target df (ConfigPath df))
             (if write_error df (ConfigPath df) \<noteq> None
              then Unfinished (ClientDocument (map (\<lambda>(ip, c). (ip, strip_one n t c)) (Clients df)))
              else Written (ClientDocument (map (\<lambda>(ip, c). (ip, strip_one n t c)) (Clients df))))
             (files df))"
  by (simp add: removeListReferencesFromClients_def strip_references_eq Let_def
        SaveClientConfig_files)

lemma DeleteList_success:
  "snd (DeleteList df n t) = None \<longleftrightarrow> (\<exists>trie. lookup_trie df n t = Inr (Some trie))"
  by (simp add: DeleteList_def Let_def split: sum.splits option.splits)

lemma DeleteList_result:
  assumes "lookup_trie df n t = Inr (Some trie)"
  shows "fst (DeleteList df n t) =
     remove_list_file
       (removeListReferencesFromClients
          (if t = ''blocklist''
           then df\<lparr>BlocklistTries := AList.delete n (BlocklistTries df)\<rparr>
           else df\<lparr>WhitelistTries := AList.delete n (WhitelistTries df)\<rparr>) n t) n t"
  using assms by (simp add: DeleteList_def Let_def)

text \<open>
  C7 (as amended): \<open>DeleteList\<close> returns successfully exactly when the list exists,
  whatever the disk does.  After it, every client policy has lost the name from the
  reference list of the deleted list's type and is otherwise unchanged, so no policy
  contains the name there.  When no policy was changed the client document is not
  written.  When one was, the document is the cleaned registry if its directory and
  its file can be created and the write succeeds; it is left unfinished, emptied by
  \<open>os.Create\<close> and not completely written, if the write fails; and it stays as it was
  if the directory or the file cannot be created.  All this holds where the file of
  the deleted list is not the client document or cannot be removed; where it is the
  document and is removed, there is no document afterwards.
\<close>

theorem DeleteList_repairs_references:
  "(snd (DeleteList df listName listType) = None \<longleftrightarrow>
      (\<exists>trie. lookup_trie df listName listType = Inr (Some trie))) \<and>
   (snd (DeleteList df listName listType) = None \<longrightarrow>
      (let df' = fst (DeleteList df listName listType);
           cleaned = map (\<lambda>(ip, c). (ip, strip_one listName listType c)) (Clients df);
           document = target df (ConfigPath df);
           listPath = filepath_Join
             (if listType = ''blocklist'' then BlocklistDir df else WhitelistDir df) listName
       in Clients df' = cleaned \<and>
          (\<forall>(ip, c) \<in> set (Clients df').
             listName \<notin> set (if listType = ''blocklist'' then BlocklistRefs c
                              else WhitelistRefs c)) \<and>
          (target df listPath \<noteq> document \<or> remove_error df listPath \<noteq> None \<longrightarrow>
             map_of (files df') document =
               (if cleaned = Clients df then map_of (files df) document
                else if mkdir_error df (filepath_Dir (ConfigPath df)) \<noteq> None \<or>
                        create_error df (ConfigPath df) \<noteq> None
                then map_of (files df) document
                else if write_error df (ConfigPath df) \<noteq> None
                then Some (Unfinished (ClientDocument cleaned))
                else Some (Written (ClientDocument cleaned)))) \<and>
          (target df listPath = document \<and> remove_error df listPath = None \<longrightarrow>
             map_of (files df') document = None)))"
proof (intro conjI impI)
  show "snd (DeleteList df listName listType) = None \<longleftrightarrow>
      (\<exists>trie. lookup_trie df listName listType = Inr (Some trie))"
    by (rule DeleteList_success)
next
  assume "snd (DeleteList df listName listType) = None"
  then obtain trie where "lookup_trie df listName listType = Inr (Some trie)"
    unfolding DeleteList_success by blast
  note r = DeleteList_result [OF this]
  let ?df1 = "if listType = ''blocklist''
             then df\<lparr>BlocklistTries := AList.delete listName (BlocklistTries df)\<rparr>
             else df\<lparr>WhitelistTries := AList.delete listName (WhitelistTries df)\<rparr>"
  let ?df2 = "removeListReferencesFromClients ?df1 listName listType"
  let ?cleaned = "map (\<lambda>(ip, c). (ip, strip_one listName listType c)) (Clients df)"
  let ?listPath = "filepath_Join
             (if listType = ''blocklist'' then BlocklistDir df else WhitelistDir df) listName"
  have cl: "Clients (fst (DeleteList df listName listType)) = ?cleaned"
    by (simp add: r remove_list_file_def Let_def repair_fields split: option.splits)
  have clean: "\<forall>(ip, c) \<in> set ?cleaned.
          listName \<notin> set (if listType = ''blocklist'' then BlocklistRefs c else WhitelistRefs c)"
    using strip_one_clean [of listName listType] by auto
  have f2: "files ?df2 =
     (if ?cleaned = Clients df then files df
      else if mkdir_error df (filepath_Dir (ConfigPath df)) \<noteq> None \<or>
              create_error df (ConfigPath df) \<noteq> None
      then files df
      else AList.update (target df (ConfigPath df))
             (if write_error df (ConfigPath df) \<noteq> None
              then Unfinished (ClientDocument ?cleaned)
              else Written (ClientDocument ?cleaned))
             (files df))"
    by (simp add: repair_files)
  have f3: "files (fst (DeleteList df listName listType)) =
      (if remove_error df ?listPath = None
       then AList.delete (target df ?listPath) (files ?df2) else files ?df2)"
    by (simp add: r remove_list_file_def Let_def repair_fields split: option.splits)
  have kept: "map_of (files (fst (DeleteList df listName listType))) (target df (ConfigPath df)) =
      map_of (files ?df2) (target df (ConfigPath df))"
    if "target df ?listPath \<noteq> target df (ConfigPath df) \<or> remove_error df ?listPath \<noteq> None"
    using that by (auto simp: f3 delete_conv')
  have gone: "map_of (files (fst (DeleteList df listName listType))) (target df (ConfigPath df)) = None"
    if "target df ?listPath = target df (ConfigPath df) \<and> remove_error df ?listPath = None"
    using that by (simp add: f3 delete_conv')
  have doc: "map_of (files ?df2) (target df (ConfigPath df)) =
      (if ?cleaned = Clients df then map_of (files df) (target df (ConfigPath df))
       else if mkdir_error df (filepath_Dir (ConfigPath df)) \<noteq> None \<or>
               create_error df (ConfigPath df) \<noteq> None
       then map_of (files df) (target df (ConfigPath df))
       else if write_error df (ConfigPath df) \<noteq> None
       then Some (Unfinished (ClientDocument ?cleaned))
       else Some (Written (ClientDocument ?cleaned)))"
    by (simp add: f2 update_conv')
  show "let df' = fst (DeleteList df listName listType);
           cleaned = map (\<lambda>(ip, c). (ip, strip_one listName listType c)) (Clients df);
           document = target df (ConfigPath df);
           listPath = filepath_Join
             (if listType = ''blocklist'' then BlocklistDir df else WhitelistDir df) listName
       in Clients df' = cleaned \<and>
          (\<forall>(ip, c) \<in> set (Clients df').
             listName \<notin> set (if listType = ''blocklist'' then BlocklistRefs c
                              else WhitelistRefs c)) \<and>
          (target df listPath \<noteq> document \<or> remove_error df listPath \<noteq> None \<longrightarrow>
             map_of (files df') document =
               (if cleaned = Clients df then map_of (files df) document
                else if mkdir_error df (filepath_Dir (ConfigPath df)) \<noteq> None \<or>
                        create_error df (ConfigPath df) \<noteq> None
                then map_of (files df) document
                else if write_error df (ConfigPath df) \<noteq> None
                then Some (Unfinished (ClientDocument cleaned))
                else Some (Written (ClientDocument cleaned)))) \<and>
          (target df listPath = document \<and> remove_error df listPath = None \<longrightarrow>
             map_of (files df') document = None)"
    unfolding Let_def
  proof (intro conjI impI)
    show "Clients (fst (DeleteList df listName listType)) = ?cleaned" by (rule cl)
    show "\<forall>(ip, c) \<in> set (Clients (fst (DeleteList df listName listType))).
             listName \<notin> set (if listType = ''blocklist'' then BlocklistRefs c
                              else WhitelistRefs c)"
      unfolding cl by (rule clean)
  next
    assume "target df ?listPath \<noteq> target df (ConfigPath df) \<or> remove_error df ?listPath \<noteq> None"
    from kept [OF this] doc
    show "map_of (files (fst (DeleteList df listName listType))) (target df (ConfigPath df)) =
               (if ?cleaned = Clients df then map_of (files df) (target df (ConfigPath df))
                else if mkdir_error df (filepath_Dir (ConfigPath df)) \<noteq> None \<or>
                        create_error df (ConfigPath df) \<noteq> None
                then map_of (files df) (target df (ConfigPath df))
                else if write_error df (ConfigPath df) \<noteq> None
                then Some (Unfinished (ClientDocument ?cleaned))
                else Some (Written (ClientDocument ?cleaned)))"
      by (simp only:)
  next
    assume "target df ?listPath = target df (ConfigPath df) \<and> remove_error df ?listPath = None"
    then show "map_of (files (fst (DeleteList df listName listType))) (target df (ConfigPath df)) = None"
      by (rule gone)
  qed
qed

theorem DeleteList_repairs_references_witness:
  "snd (DeleteList (S4_filter None None) ''x'' ''blocklist'') = None \<and>
   Clients (fst (DeleteList (S4_filter None None) ''x'' ''blocklist'')) =
     [(''10.0.0.4'', \<lparr>IP = [], BlocklistRefs = [], WhitelistRefs = [], Mode = ''blocklist''\<rparr>)] \<and>
   map_of (files (fst (DeleteList (S4_filter None None) ''x'' ''blocklist''))) ''/clients.json'' =
     Some (Written (ClientDocument
       [(''10.0.0.4'', \<lparr>IP = [], BlocklistRefs = [], WhitelistRefs = [], Mode = ''blocklist''\<rparr>)])) \<and>
   map_of (files (fst (DeleteList (S4_filter None (Some ''no space left on device'')) ''x''
                         ''blocklist''))) ''/clients.json'' =
     Some (Unfinished (ClientDocument
       [(''10.0.0.4'', \<lparr>IP = [], BlocklistRefs = [], WhitelistRefs = [], Mode = ''blocklist''\<rparr>)])) \<and>
   map_of (files (fst (DeleteList (S4_filter (Some ''permission denied'') None) ''x''
                         ''blocklist''))) ''/clients.json'' =
     Some (Written (ClientDocument
       [(''10.0.0.4'', \<lparr>IP = [], BlocklistRefs = [''x''], WhitelistRefs = [],
                          Mode = ''blocklist''\<rparr>)])) \<and>
   map_of (files (fst (DeleteList shared_path_filter ''clients.json'' ''blocklist'')))
     ''/clients.json'' = None"
proof -
  have look: "lookup_trie (S4_filter creating writing) ''x'' ''blocklist'' =
      Inr (Some (Node [(''com'', Node [(''a'', Node [] True [])] False [])] False []))"
    for creating writing
    by (simp add: lookup_trie_def S4_filter_def NewDNSFilter_def)
  have path: "filepath_Join ''/blocklists'' ''x'' = ''/blocklists/x''"
    "filepath_Join ''/'' ''clients.json'' = ''/clients.json''"
    "filepath_Dir ''/clients.json'' = ''/''"
    by code_simp+
  have strip: "strip_one ''x'' ''blocklist''
      \<lparr>IP = [], BlocklistRefs = [''x''], WhitelistRefs = [], Mode = ''blocklist''\<rparr> =
      \<lparr>IP = [], BlocklistRefs = [], WhitelistRefs = [], Mode = ''blocklist''\<rparr>"
    by (simp add: strip_one_def removeFromSlice_def)
  note a = DeleteList_repairs_references [of "S4_filter None None" "''x''" "''blocklist''",
      unfolded Let_def]
  have a0: "snd (DeleteList (S4_filter None None) ''x'' ''blocklist'') = None"
    using a [THEN conjunct1] look by simp
  note a1 = mp [OF a [THEN conjunct2] a0]
  have c1: "Clients (fst (DeleteList (S4_filter None None) ''x'' ''blocklist'')) =
     [(''10.0.0.4'', \<lparr>IP = [], BlocklistRefs = [], WhitelistRefs = [], Mode = ''blocklist''\<rparr>)]"
    using a1 [THEN conjunct1] by (simp add: S4_filter_def NewDNSFilter_def strip)
  have c2: "map_of (files (fst (DeleteList (S4_filter None None) ''x'' ''blocklist'')))
      ''/clients.json'' =
     Some (Written (ClientDocument
       [(''10.0.0.4'', \<lparr>IP = [], BlocklistRefs = [], WhitelistRefs = [], Mode = ''blocklist''\<rparr>)]))"
    using a1 [THEN conjunct2, THEN conjunct2, THEN conjunct1]
    by (simp add: S4_filter_def NewDNSFilter_def strip path)
  note b = DeleteList_repairs_references [of "S4_filter None (Some ''no space left on device'')"
      "''x''" "''blocklist''", unfolded Let_def]
  have b0: "snd (DeleteList (S4_filter None (Some ''no space left on device'')) ''x''
      ''blocklist'') = None"
    using b [THEN conjunct1] look by simp
  note b1 = mp [OF b [THEN conjunct2] b0]
  have c3: "map_of (files (fst (DeleteList (S4_filter None (Some ''no space left on device''))
      ''x'' ''blocklist''))) ''/clients.json'' =
     Some (Unfinished (ClientDocument
       [(''10.0.0.4'', \<lparr>IP = [], BlocklistRefs = [], WhitelistRefs = [], Mode = ''blocklist''\<rparr>)]))"
    using b1 [THEN conjunct2, THEN conjunct2, THEN conjunct1]
    by (simp add: S4_filter_def NewDNSFilter_def strip path)
  note c = DeleteList_repairs_references [of "S4_filter (Some ''permission denied'') None"
      "''x''" "''blocklist''", unfolded Let_def]
  have d0: "snd (DeleteList (S4_filter (Some ''permission denied'') None) ''x''
      ''blocklist'') = None"
    using c [THEN conjunct1] look by simp
  note d1 = mp [OF c [THEN conjunct2] d0]
  have c4: "map_of (files (fst (DeleteList (S4_filter (Some ''permission denied'') None)
      ''x'' ''blocklist''))) ''/clients.json'' =
     Some (Written (ClientDocument
       [(''10.0.0.4'', \<lparr>IP = [], BlocklistRefs = [''x''], WhitelistRefs = [],
                          Mode = ''blocklist''\<rparr>)]))"
    using d1 [THEN conjunct2, THEN conjunct2, THEN conjunct1]
    by (simp add: S4_filter_def NewDNSFilter_def strip path)
  note e = DeleteList_repairs_references [of shared_path_filter "''clients.json''"
      "''blocklist''", unfolded Let_def]
  have "lookup_trie shared_path_filter ''clients.json'' ''blocklist'' =
      Inr (Some (Node [] False []))"
    by (simp add: lookup_trie_def shared_path_filter_def NewDNSFilter_def)
  with e [THEN conjunct1]
  have e0: "snd (DeleteList shared_path_filter ''clients.json'' ''blocklist'') = None"
    by simp
  note e1 = mp [OF e [THEN conjunct2] e0]
  have c5: "map_of (files (fst (DeleteList shared_path_filter ''clients.json'' ''blocklist'')))
     ''/clients.json'' = None"
    using e1 [THEN conjunct2, THEN conjunct2, THEN conjunct2]
    by (simp add: shared_path_filter_def NewDNSFilter_def path)
  show ?thesis
    by (intro conjI a0 c1 c2 c3 c4 c5)
qed

theorem DeleteList_unwritable_counterexample:
  "snd (DeleteList (S4_filter None (Some ''no space left on device'')) ''x'' ''blocklist'') = None \<and>
   Clients (fst (DeleteList (S4_filter None (Some ''no space left on device'')) ''x'' ''blocklist''))
     \<noteq> Clients (S4_filter None (Some ''no space left on device'')) \<and>
   map_of (files (fst (DeleteList (S4_filter None (Some ''no space left on device'')) ''x''
                         ''blocklist''))) ''/clients.json'' \<noteq>
     Some (Written (ClientDocument
       (Clients (fst (DeleteList (S4_filter None (Some ''no space left on device'')) ''x''
                        ''blocklist''))))) \<and>
   snd (DeleteList (S4_filter (Some ''permission denied'') None) ''x'' ''blocklist'') = None \<and>
   map_of (files (fst (DeleteList (S4_filter (Some ''permission denied'') None) ''x''
                         ''blocklist''))) ''/clients.json'' \<noteq>
     Some (Written (ClientDocument
       (Clients (fst (DeleteList (S4_filter (Some ''permission denied'') None) ''x''
                        ''blocklist'')))))"
  by code_simp
section \<open>Case of exception labels\<close>

text \<open>
  C6: the entry \<open>example.com !MAIL\<close> does not behave like \<open>example.com !mail\<close>: the
  exception label is stored as written, the query is lowered, so \<open>mail.example.com\<close>
  is matched by the first trie and excepted by the second.
\<close>

theorem exception_case_not_folded:
  "IsDomainBlocked (insert_entries NewNode [''example.com !MAIL'']) ''mail.example.com'' = True \<and>
   IsDomainBlocked (insert_entries NewNode [''example.com !mail'']) ''mail.example.com'' = False"
  by code_simp

section \<open>Malformed entries\<close>

lemma save_after_store:
  "snd (SaveDomainList (store_trie df n t r) n' t' ds) = snd (SaveDomainList df n' t' [])"
  by (simp add: SaveDomainList_def store_trie_def Let_def split: option.splits)

lemma store_trie_fields:
  "BlocklistDir (store_trie df n t r) = BlocklistDir df"
  "WhitelistDir (store_trie df n t r) = WhitelistDir df"
  "mkdir_error (store_trie df n t r) = mkdir_error df"
  "create_error (store_trie df n t r) = create_error df"
  by (simp_all add: store_trie_def)

lemma SaveDomainList_errors:
  "snd (SaveDomainList df n t ds) = Some err \<Longrightarrow> err = InvalidListType t \<or> disk_error err"
  by (auto simp: SaveDomainList_def Let_def split: option.splits if_splits)

lemma SaveDomainList_ok:
  "snd (SaveDomainList df n t ds) = None \<longleftrightarrow>
     (t = ''blocklist'' \<or> t = ''whitelist'') \<and>
     mkdir_error df (if t = ''blocklist'' then BlocklistDir df else WhitelistDir df) = None \<and>
     create_error df
       (filepath_Join (if t = ''blocklist'' then BlocklistDir df else WhitelistDir df) n) = None"
  by (auto simp: SaveDomainList_def Let_def split: option.splits if_splits)

lemma SaveDomainList_tries:
  "BlocklistTries (fst (SaveDomainList df n t ds)) = BlocklistTries df"
  "WhitelistTries (fst (SaveDomainList df n t ds)) = WhitelistTries df"
  by (simp_all add: SaveDomainList_def put_file_def Let_def split: option.splits)

text \<open>
  C5 (as amended): parsing rejects nothing.  An entry without \<open>!\<close> is its own domain,
  whatever its dots; an exception label that has no white space or comma at its ends
  is kept as written, dots included (shown for ASCII text).  The list operations never fail because of an entry: what they return
  does not depend on the entries they are given, and is \<open>nil\<close> or an error about the
  list type, about a list that exists already or is missing, or from creating the
  directory or the file of the list.  Creating a list succeeds exactly when its type is
  one of the two, no list of that type has its name, and the directory and the file
  can be created; the list then exists, with the trie of its entries.
\<close>

theorem entries_never_rejected:
  "(CHR ''!'' \<notin> set entry \<longrightarrow> ParseDomainWithExceptions entry = (entry, [])) \<and>
   (ascii d \<and> ascii x \<and> CHR ''!'' \<notin> set d \<and> CHR ''!'' \<notin> set x \<and> x \<noteq> [] \<and>
    Trim (TrimSpace x) '', '' = x \<longrightarrow>
      ParseDomainWithExceptions (d @ '' !'' @ x) = (TrimSpace d, [x])) \<and>
   snd (CreateList df (l\<lparr>Domains := es\<rparr>)) = snd (CreateList df (l\<lparr>Domains := es'\<rparr>)) \<and>
   snd (UpdateList df (l\<lparr>Domains := es\<rparr>)) = snd (UpdateList df (l\<lparr>Domains := es'\<rparr>)) \<and>
   snd (AddDomains df n t es) = snd (AddDomains df n t es') \<and>
   snd (RemoveDomains df n t es) = snd (RemoveDomains df n t es') \<and>
   (snd (CreateList df l) = Some err \<longrightarrow>
      err \<in> {BlocklistExists (Name l), WhitelistExists (Name l), InvalidListType (Type l)} \<or>
      disk_error err) \<and>
   (snd (UpdateList df l) = Some err \<longrightarrow>
      err \<in> {ListNotFound (Name l), InvalidListType (Type l)} \<or> disk_error err) \<and>
   (snd (AddDomains df n t es) = Some err \<longrightarrow>
      err \<in> {ListNotFound n, InvalidListType t} \<or> disk_error err) \<and>
   (snd (RemoveDomains df n t es) = Some err \<longrightarrow>
      err \<in> {ListNotFound n, InvalidListType t} \<or> disk_error err) \<and>
   (snd (CreateList df l) = None \<longleftrightarrow>
      lookup_trie df (Name l) (Type l) = Inr None \<and>
      mkdir_error df (if Type l = ''blocklist'' then BlocklistDir df else WhitelistDir df) = None \<and>
      create_error df
        (filepath_Join (if Type l = ''blocklist'' then BlocklistDir df else WhitelistDir df)
           (Name l)) = None) \<and>
   (snd (CreateList df l) = None \<longrightarrow>
      (\<exists>trie. lookup_trie (fst (CreateList df l)) (Name l) (Type l) = Inr (Some trie)) \<and>
      ((\<forall>e \<in> set (Domains l). ascii e) \<longrightarrow>
         lookup_trie (fst (CreateList df l)) (Name l) (Type l) =
           Inr (Some (insert_entries NewNode (Domains l)))))"
proof (intro conjI)
  show "CHR ''!'' \<notin> set entry \<longrightarrow> ParseDomainWithExceptions entry = (entry, [])"
    by (simp add: Parse_without_bang)
  show "ascii d \<and> ascii x \<and> CHR ''!'' \<notin> set d \<and> CHR ''!'' \<notin> set x \<and> x \<noteq> [] \<and>
    Trim (TrimSpace x) '', '' = x \<longrightarrow>
      ParseDomainWithExceptions (d @ '' !'' @ x) = (TrimSpace d, [x])"
    using Parse_with_exception [of d x] by blast
  show "snd (CreateList df (l\<lparr>Domains := es\<rparr>)) = snd (CreateList df (l\<lparr>Domains := es'\<rparr>))"
    by (simp add: CreateList_def Let_def save_after_store split: option.splits)
  show "snd (UpdateList df (l\<lparr>Domains := es\<rparr>)) = snd (UpdateList df (l\<lparr>Domains := es'\<rparr>))"
    by (simp add: UpdateList_def Let_def save_after_store split: sum.splits option.splits)
  show "snd (AddDomains df n t es) = snd (AddDomains df n t es')"
    by (simp add: AddDomains_def Let_def save_after_store split: sum.splits option.splits)
  show "snd (RemoveDomains df n t es) = snd (RemoveDomains df n t es')"
    by (simp add: RemoveDomains_def Let_def save_after_store
          split: sum.splits option.splits prod.splits)
  show "snd (CreateList df l) = Some err \<longrightarrow>
      err \<in> {BlocklistExists (Name l), WhitelistExists (Name l), InvalidListType (Type l)} \<or>
      disk_error err"
    by (auto simp: CreateList_def Let_def split: option.splits if_splits
          dest: SaveDomainList_errors)
  show "snd (UpdateList df l) = Some err \<longrightarrow>
      err \<in> {ListNotFound (Name l), InvalidListType (Type l)} \<or> disk_error err"
    by (auto simp: UpdateList_def lookup_trie_def Let_def split: option.splits if_splits
          dest: SaveDomainList_errors)
  show "snd (AddDomains df n t es) = Some err \<longrightarrow>
      err \<in> {ListNotFound n, InvalidListType t} \<or> disk_error err"
    by (auto simp: AddDomains_def lookup_trie_def Let_def split: option.splits if_splits
          dest: SaveDomainList_errors)
  show "snd (RemoveDomains df n t es) = Some err \<longrightarrow>
      err \<in> {ListNotFound n, InvalidListType t} \<or> disk_error err"
    by (auto simp: RemoveDomains_def lookup_trie_def Let_def
          split: option.splits if_splits prod.splits dest: SaveDomainList_errors)
  show "snd (CreateList df l) = None \<longleftrightarrow>
      lookup_trie df (Name l) (Type l) = Inr None \<and>
      mkdir_error df (if Type l = ''blocklist'' then BlocklistDir df else WhitelistDir df) = None \<and>
      create_error df
        (filepath_Join (if Type l = ''blocklist'' then BlocklistDir df else WhitelistDir df)
           (Name l)) = None"
    by (auto simp: CreateList_def lookup_trie_def Let_def SaveDomainList_ok store_trie_fields
          split: option.splits if_splits)
  show "snd (CreateList df l) = None \<longrightarrow>
      (\<exists>trie. lookup_trie (fst (CreateList df l)) (Name l) (Type l) = Inr (Some trie)) \<and>
      ((\<forall>e \<in> set (Domains l). ascii e) \<longrightarrow>
         lookup_trie (fst (CreateList df l)) (Name l) (Type l) =
           Inr (Some (insert_entries NewNode (Domains l))))"
    by (auto simp: CreateList_def lookup_trie_def Let_def SaveDomainList_tries store_trie_def
          update_conv' split: option.splits if_splits)
qed

theorem entries_never_rejected_witness:
  "ParseDomainWithExceptions ''.example.com'' = (''.example.com'', []) \<and>
   ParseDomainWithExceptions ''a.com !x.y'' = (''a.com'', [''x.y'']) \<and>
   snd (CreateList NewDNSFilter
          \<lparr>Name = ''l'', Type = ''whitelist'', Domains = [''.example.com'', ''example.com.'', [], ''a.com !x.y'']\<rparr>) = None \<and>
   lookup_trie
     (fst (CreateList NewDNSFilter
             \<lparr>Name = ''l'', Type = ''whitelist'', Domains = [''.example.com'', ''example.com.'', [], ''a.com !x.y'']\<rparr>))
     ''l'' ''whitelist'' =
     Inr (Some (insert_entries NewNode [''.example.com'', ''example.com.'', [], ''a.com !x.y''])) \<and>
   snd (CreateList NewDNSFilter \<lparr>Name = ''l'', Type = ''greylist'', Domains = [''.example.com'', ''example.com.'', [], ''a.com !x.y'']\<rparr>) =
     Some (InvalidListType ''greylist'') \<and>
   snd (CreateList NewDNSFilter \<lparr>Name = [], Type = ''blocklist'', Domains = [''a.com'']\<rparr>) =
     Some (CreateListFileFailed ''/blocklists'' ''open /blocklists: is a directory'')"
proof -
  let ?l = "\<lparr>Name = ''l'', Type = ''whitelist'', Domains = [''.example.com'', ''example.com.'', [], ''a.com !x.y'']\<rparr>"
  have t: "Trim (TrimSpace ''x.y'') '', '' = ''x.y''"
    by (simp add: Trim_def TrimSpace_def is_space_def)
  have e: "''a.com'' @ '' !'' @ ''x.y'' = ''a.com !x.y''" "TrimSpace ''a.com'' = ''a.com''"
    by (simp_all add: TrimSpace_def is_space_def)
  have asc: "ascii ''a.com''" "ascii ''x.y''" "\<forall>e \<in> set (Domains ?l). ascii e"
    by (simp_all add: ascii_def)
  note m = entries_never_rejected [where entry = "''.example.com''" and d = "''a.com''"
      and x = "''x.y''" and df = NewDNSFilter and l = ?l]
  have c1: "ParseDomainWithExceptions ''.example.com'' = (''.example.com'', [])"
    using m [THEN conjunct1] by simp
  have c2: "ParseDomainWithExceptions ''a.com !x.y'' = (''a.com'', [''x.y''])"
    using m [THEN conjunct2, THEN conjunct1] t asc by (simp add: e)
  note rest = m [THEN conjunct2, THEN conjunct2, THEN conjunct2, THEN conjunct2, THEN conjunct2,
      THEN conjunct2, THEN conjunct2, THEN conjunct2, THEN conjunct2, THEN conjunct2]
  have cr: "sample_create_error (filepath_Join ''/whitelists'' ''l'') = None"
    by code_simp
  have c3: "snd (CreateList NewDNSFilter ?l) = None"
    using rest [THEN conjunct1] by (simp add: lookup_trie_def NewDNSFilter_def cr)
  have c4: "lookup_trie (fst (CreateList NewDNSFilter ?l)) ''l'' ''whitelist'' =
      Inr (Some (insert_entries NewNode [''.example.com'', ''example.com.'', [], ''a.com !x.y'']))"
    using conjunct2 [OF mp [OF rest [THEN conjunct2] c3]] asc(3) by simp
  have c5: "snd (CreateList NewDNSFilter \<lparr>Name = ''l'', Type = ''greylist'', Domains = [''.example.com'', ''example.com.'', [], ''a.com !x.y'']\<rparr>) =
     Some (InvalidListType ''greylist'')"
    by (simp add: CreateList_def)
  have c6: "snd (CreateList NewDNSFilter \<lparr>Name = [], Type = ''blocklist'', Domains = [''a.com'']\<rparr>) =
     Some (CreateListFileFailed ''/blocklists'' ''open /blocklists: is a directory'')"
    by code_simp
  show ?thesis
    by (intro conjI c1 c2 c3 c4 c5 c6)
qed

theorem malformed_entries_accepted_counterexample:
  "ParseDomainWithExceptions ''.example.com'' = (''.example.com'', []) \<and>
   ParseDomainWithExceptions ''example.com.'' = (''example.com.'', []) \<and>
   ParseDomainWithExceptions [] = ([], []) \<and>
   ParseDomainWithExceptions ''a.com !x.y'' = (''a.com'', [''x.y'']) \<and>
   snd (CreateList NewDNSFilter
          \<lparr>Name = ''l'', Type = ''blocklist'',
           Domains = [''.example.com'', ''example.com.'', [], ''a.com !x.y'']\<rparr>) = None \<and>
   set (extractDomainsFromTrie
     (insert_entries NewNode [''.example.com'', ''example.com.'', [], ''a.com !x.y'']) []) =
     set [''.example.com'', ''example.com.'', [], ''a.com !x.y'']"
  by code_simp

section \<open>Status codes for missing targets\<close>

text \<open>
  C4: on a filter without lists and clients, the two \<open>GET\<close> handlers answer a missing
  target with 404, the handlers behind \<open>PUT\<close>, \<open>DELETE\<close> and the \<open>/domains\<close> routes
  answer it with 400; the body is the error text in each case.
\<close>

theorem missing_target_status_codes:
  "snd (getListContent NewDNSFilter ''blocklist'' ''nosuch'') =
     \<lparr>statusCode = 404, responseBody = ErrorResponse ''list not found: nosuch''\<rparr> \<and>
   snd (updateList NewDNSFilter ''blocklist'' ''nosuch'' (Some \<lparr>Name = [], Type = [], Domains = []\<rparr>)) =
     \<lparr>statusCode = 400, responseBody = ErrorResponse ''list not found: nosuch''\<rparr> \<and>
   snd (deleteList NewDNSFilter ''blocklist'' ''nosuch'') =
     \<lparr>statusCode = 400, responseBody = ErrorResponse ''list not found: nosuch''\<rparr> \<and>
   snd (addDomains NewDNSFilter ''blocklist'' ''nosuch'' (Some [''a.com''])) =
     \<lparr>statusCode = 400, responseBody = ErrorResponse ''list not found: nosuch''\<rparr> \<and>
   snd (removeDomains NewDNSFilter ''blocklist'' ''nosuch'' (Some [''a.com''])) =
     \<lparr>statusCode = 400, responseBody = ErrorResponse ''list not found: nosuch''\<rparr> \<and>
   snd (getClientByIP NewDNSFilter ''10.0.0.9'') =
     \<lparr>statusCode = 404, responseBody = ErrorResponse ''client not found: 10.0.0.9''\<rparr> \<and>
   snd (updateClient NewDNSFilter ''10.0.0.9''
          (Some \<lparr>IP = [], BlocklistRefs = [], WhitelistRefs = [], Mode = ''blocklist''\<rparr>)) =
     \<lparr>statusCode = 400, responseBody = ErrorResponse ''client not found: 10.0.0.9''\<rparr> \<and>
   snd (deleteClient NewDNSFilter ''10.0.0.9'') =
     \<lparr>statusCode = 400, responseBody = ErrorResponse ''client not found: 10.0.0.9''\<rparr>"
  by (simp add: getListContent_def updateList_def deleteList_def addDomains_def removeDomains_def
        getClientByIP_def updateClient_def deleteClient_def valid_list_type_def
        GetListContent_def UpdateList_def DeleteList_def AddDomains_def RemoveDomains_def
        GetClientByIP_def UpdateClient_def DeleteClient_def lookup_trie_def NewDNSFilter_def
        sendErrorResponse_def StatusBadRequest_def StatusNotFound_def)


section \<open>Removing entries\<close>

text \<open>
  C9: \<open>RemoveDomains\<close> compares the base domain of a request as it is written with
  the enumerated domains, which are in lower case, and it parses every retained entry
  again from its enumerated text.  So the list created from \<open>Example.com\<close> still holds
  its entry after the successful removal of \<open>Example.com\<close> (the request \<open>example.com\<close>
  removes it); and removing \<open>other.com\<close> from a list that also holds \<open>d.com\<close> with the
  exception label made of a tab and \<open>x\<close> changes the retained entry: the rebuilt trie
  carries the exception \<open>x\<close>, and \<open>x.d.com\<close>, blocked before, is no longer blocked.
\<close>

theorem RemoveDomains_keeps_folded_entry_and_rewrites_exception:
  "GetListContent mixed_case_filter ''l'' ''blocklist'' =
     Inr \<lparr>Name = ''l'', Type = ''blocklist'', Domains = [''example.com'']\<rparr> \<and>
   snd (RemoveDomains mixed_case_filter ''l'' ''blocklist'' [''Example.com'']) = None \<and>
   GetListContent (fst (RemoveDomains mixed_case_filter ''l'' ''blocklist'' [''Example.com'']))
       ''l'' ''blocklist'' =
     Inr \<lparr>Name = ''l'', Type = ''blocklist'', Domains = [''example.com'']\<rparr> \<and>
   GetListContent (fst (RemoveDomains mixed_case_filter ''l'' ''blocklist'' [''example.com'']))
       ''l'' ''blocklist'' =
     Inr \<lparr>Name = ''l'', Type = ''blocklist'', Domains = []\<rparr> \<and>
   map_of (BlocklistTries tab_exception_filter) ''l'' =
     Some (Node [(''com'', Node [(''d'', Node [] True [[CHR 0x09, CHR ''x'']]),
                                 (''other'', Node [] True [])] False [])] False []) \<and>
   map_of (BlocklistTries (fst (RemoveDomains tab_exception_filter ''l'' ''blocklist'' [''other.com''])))
       ''l'' =
     Some (Node [(''com'', Node [(''d'', Node [] True [''x''])] False [])] False []) \<and>
   CheckDomain
     (fst (CreateClient tab_exception_filter
        \<lparr>IP = ''10.0.0.1'', BlocklistRefs = [''l''], WhitelistRefs = [], Mode = ''blocklist''\<rparr>))
     ''10.0.0.1'' ''x.d.com'' = False \<and>
   CheckDomain
     (fst (CreateClient (fst (RemoveDomains tab_exception_filter ''l'' ''blocklist'' [''other.com'']))
        \<lparr>IP = ''10.0.0.1'', BlocklistRefs = [''l''], WhitelistRefs = [], Mode = ''blocklist''\<rparr>))
     ''10.0.0.1'' ''x.d.com'' = True"
  by code_simp
section \<open>Enumerating a loaded list\<close>




lemma endpoint_at_NewNode [simp]: "endpoint_at NewNode ps = None"
  by (cases ps) (simp_all add: NewNode_def)


lemma wf_child: "wf_trie (Node ch ep ex) \<Longrightarrow> map_of ch p = Some c \<Longrightarrow> wf_trie c"
  by (auto dest: map_of_SomeD)
























section \<open>Structure of the trie in the store\<close>

lemma update_absent: "map_of al k = None \<Longrightarrow> AList.update k v al = al @ [(k, v)]"
  by (induction al) (auto split: if_splits)

lemma child_links_mark:
  assumes "cur < length h"
  shows "child_links (h[cur := (h ! cur)\<lparr>hIsEndpoint := e, hExceptions := x\<rparr>]) = child_links h"
proof -
  have "hChildren (h[cur := (h ! cur)\<lparr>hIsEndpoint := e, hExceptions := x\<rparr>] ! i) =
      hChildren (h ! i)" if "i < length h" for i
    using that by (cases "i = cur") simp_all
  then show ?thesis
    by (auto simp: child_links_def)
qed

lemma child_links_grow:
  assumes "cur < length h" "map_of (hChildren (h ! cur)) part = None"
  shows "child_links
           (h[cur := (h ! cur)\<lparr>hChildren := AList.update part (length h) (hChildren (h ! cur))\<rparr>]
            @ [hNewNode]) =
         insert (cur, part, length h) (child_links h)"
  using assms
  by (auto simp: child_links_def nth_append nth_list_update update_absent hNewNode_def
      less_Suc_eq split: if_splits)

lemma heap_inv_mark:
  assumes "heap_inv h" "cur < length h"
  shows "heap_inv (h[cur := (h ! cur)\<lparr>hIsEndpoint := True, hExceptions := x\<rparr>])"
  using assms unfolding heap_inv_def
  by (simp add: child_links_mark nth_list_update)

lemma heap_inv_grow:
  assumes inv: "heap_inv h" and cur: "cur < length h"
    and none: "map_of (hChildren (h ! cur)) part = None"
  shows "heap_inv
           (h[cur := (h ! cur)\<lparr>hChildren := AList.update part (length h) (hChildren (h ! cur))\<rparr>]
            @ [hNewNode])"
    (is "heap_inv ?h'")
proof -
  have links: "child_links ?h' = insert (cur, part, length h) (child_links h)"
    using cur none by (rule child_links_grow)
  have len: "length ?h' = Suc (length h)" by simp
  from inv have "\<forall>i p c. (i, p, c) \<in> child_links h \<longrightarrow> i < c \<and> c < length h"
    by (unfold heap_inv_def, elim conjE)
  then have old: "\<And>i p c. (i, p, c) \<in> child_links h \<Longrightarrow> i < c \<and> c < length h"
    by blast
  have 1: "?h' \<noteq> []" by simp
  have 2: "\<forall>i p c. (i, p, c) \<in> child_links ?h' \<longrightarrow> i < c \<and> c < length ?h'"
  proof (intro allI impI)
    fix i p c
    assume "(i, p, c) \<in> child_links ?h'"
    then consider "(i, p, c) = (cur, part, length h)" | "(i, p, c) \<in> child_links h"
      unfolding links by auto
    then show "i < c \<and> c < length ?h'"
    proof cases
      case 1
      with cur show ?thesis by simp
    next
      case 2
      from old [OF 2] show ?thesis by simp
    qed
  qed
  have 3: "\<forall>i p j q c. (i, p, c) \<in> child_links ?h' \<and> (j, q, c) \<in> child_links ?h' \<longrightarrow> i = j \<and> p = q"
  proof (intro allI impI, elim conjE)
    fix i p j q c
    assume l: "(i, p, c) \<in> child_links ?h'" and l': "(j, q, c) \<in> child_links ?h'"
    from inv have uniq: "\<forall>i p j q c. (i, p, c) \<in> child_links h \<and> (j, q, c) \<in> child_links h
        \<longrightarrow> i = j \<and> p = q"
      by (unfold heap_inv_def, elim conjE)
    show "i = j \<and> p = q"
    proof (cases "c = length h")
      case True
      with l old [of i p c] have "i = cur \<and> p = part" unfolding links by auto
      moreover from True l' old [of j q c] have "j = cur \<and> q = part" unfolding links by auto
      ultimately show ?thesis by simp
    next
      case False
      with l l' have "(i, p, c) \<in> child_links h \<and> (j, q, c) \<in> child_links h"
        unfolding links by simp
      with uniq show ?thesis by blast
    qed
  qed
  have 4: "\<forall>c < length ?h'. c \<noteq> 0 \<longrightarrow> (\<exists>i p. (i, p, c) \<in> child_links ?h')"
  proof (intro allI impI)
    fix c
    assume "c < length ?h'" "c \<noteq> 0"
    show "\<exists>i p. (i, p, c) \<in> child_links ?h'"
    proof (cases "c = length h")
      case True
      then show ?thesis unfolding links by blast
    next
      case False
      with \<open>c < length ?h'\<close> have "c < length h" by simp
      with inv \<open>c \<noteq> 0\<close> obtain i p where "(i, p, c) \<in> child_links h"
        unfolding heap_inv_def by blast
      then show ?thesis unfolding links by blast
    qed
  qed
  have 5: "\<forall>i < length ?h'. hExceptions (?h' ! i) \<noteq> [] \<longrightarrow> hIsEndpoint (?h' ! i)"
    using inv cur unfolding heap_inv_def
    by (auto simp: nth_append nth_list_update hNewNode_def less_Suc_eq)
  from 1 2 3 4 5 show ?thesis
    unfolding heap_inv_def by (intro conjI)
qed

lemma child_in_heap:
  assumes "heap_inv h" "cur < length h" "map_of (hChildren (h ! cur)) part = Some child"
  shows "cur < child \<and> child < length h"
proof -
  from assms(3) have "(part, child) \<in> set (hChildren (h ! cur))"
    by (rule map_of_SomeD)
  with assms(2) have "(cur, part, child) \<in> child_links h"
    by (simp add: child_links_def)
  with assms(1) show ?thesis
    unfolding heap_inv_def by blast
qed

lemma heap_inv_insert_parts:
  "heap_inv h \<Longrightarrow> cur < length h \<Longrightarrow> heap_inv (h_insert_parts h cur parts exceptions)"
proof (induction parts arbitrary: h cur)
  case Nil
  then show ?case by (simp add: heap_inv_mark)
next
  case (Cons part parts)
  show ?case
  proof (cases "map_of (hChildren (h ! cur)) part")
    case None
    from heap_inv_grow [OF Cons.prems None]
    show ?thesis using None by (simp add: Cons.IH)
  next
    case (Some child)
    with child_in_heap [OF Cons.prems Some] Cons.prems(1) show ?thesis
      by (simp add: Cons.IH)
  qed
qed

lemma root_flag_insert_parts:
  "heap_inv h \<Longrightarrow> cur < length h \<Longrightarrow> (parts = [] \<longrightarrow> cur \<noteq> 0) \<Longrightarrow>
     hIsEndpoint (h_insert_parts h cur parts exceptions ! 0) = hIsEndpoint (h ! 0)"
proof (induction parts arbitrary: h cur)
  case Nil
  then show ?case by simp
next
  case (Cons part parts)
  from Cons.prems(1) have ne: "h \<noteq> []" unfolding heap_inv_def by blast
  show ?case
  proof (cases "map_of (hChildren (h ! cur)) part")
    case None
    let ?h' = "h[cur := (h ! cur)\<lparr>hChildren := AList.update part (length h) (hChildren (h ! cur))\<rparr>]
            @ [hNewNode]"
    have "hIsEndpoint (h_insert_parts ?h' (length h) parts exceptions ! 0) = hIsEndpoint (?h' ! 0)"
      using heap_inv_grow [OF Cons.prems(1,2) None] ne by (intro Cons.IH) simp_all
    also have "\<dots> = hIsEndpoint (h ! 0)"
      using ne Cons.prems(2) by (cases "cur = 0") (simp_all add: nth_append nth_list_update)
    finally show ?thesis using None by simp
  next
    case (Some child)
    from child_in_heap [OF Cons.prems(1,2) Some] have "child < length h" "child \<noteq> 0"
      by simp_all
    with Cons.prems(1) Some show ?thesis
      by (simp add: Cons.IH)
  qed
qed

lemma heap_inv_fresh: "heap_inv [hNewNode]"
  by (simp add: heap_inv_def child_links_def hNewNode_def)

lemma trie_heap_inv: "trie_heap h \<Longrightarrow> heap_inv h \<and> \<not> hIsEndpoint (h ! 0)"
proof (induction rule: trie_heap.induct)
  case fresh_root
  show ?case by (simp add: heap_inv_fresh) (simp add: hNewNode_def)
next
  case (insertion h domain exceptions)
  then have inv: "heap_inv h" and root: "\<not> hIsEndpoint (h ! 0)" by simp_all
  from inv have pos: "0 < length h" unfolding heap_inv_def by simp
  have "heap_inv (h_InsertDomain h 0 domain exceptions)"
    unfolding h_InsertDomain_def using inv pos by (rule heap_inv_insert_parts)
  moreover have "hIsEndpoint (h_InsertDomain h 0 domain exceptions ! 0) = hIsEndpoint (h ! 0)"
    unfolding h_InsertDomain_def using inv pos by (rule root_flag_insert_parts) simp
  ultimately show ?case using root by simp
qed

lemma heap_inv_acyclic: "heap_inv h \<Longrightarrow> acyclic (heap_edges h)"
proof -
  assume "heap_inv h"
  then have "heap_edges h \<subseteq> {(i, c). i < c}"
    unfolding heap_inv_def heap_edges_def by blast
  moreover have "acyclic {(i, c :: nat). i < c}"
    by (rule wf_acyclic [OF wf_less])
  ultimately show ?thesis by (rule acyclic_subset [rotated])
qed


lemma heap_edges_bounded: "heap_inv h \<Longrightarrow> (i, c) \<in> heap_edges h \<Longrightarrow> i < c \<and> c < length h"
proof -
  assume inv: "heap_inv h" and "(i, c) \<in> heap_edges h"
  then obtain p where "(i, p, c) \<in> child_links h"
    unfolding heap_edges_def by blast
  moreover from inv have "\<forall>i p c. (i, p, c) \<in> child_links h \<longrightarrow> i < c \<and> c < length h"
    by (unfold heap_inv_def, elim conjE)
  ultimately show ?thesis by blast
qed

lemma heap_edges_finite: "heap_inv h \<Longrightarrow> finite (heap_edges h)"
proof -
  assume inv: "heap_inv h"
  have "heap_edges h \<subseteq> {..<length h} \<times> {..<length h}"
  proof
    fix e
    assume e: "e \<in> heap_edges h"
    obtain i c where [simp]: "e = (i, c)" by (cases e)
    from heap_edges_bounded [OF inv, of i c] e have "i < c \<and> c < length h" by simp
    then show "e \<in> {..<length h} \<times> {..<length h}" by simp
  qed
  then show ?thesis
    by (rule finite_subset) simp
qed

lemma heap_edges_single_parent:
  "heap_inv h \<Longrightarrow> (i, c) \<in> heap_edges h \<Longrightarrow> (j, c) \<in> heap_edges h \<Longrightarrow> i = j"
proof -
  assume inv: "heap_inv h" and "(i, c) \<in> heap_edges h" "(j, c) \<in> heap_edges h"
  then obtain p q where "(i, p, c) \<in> child_links h \<and> (j, q, c) \<in> child_links h"
    unfolding heap_edges_def by blast
  moreover from inv have "\<forall>i p j q c. (i, p, c) \<in> child_links h \<and> (j, q, c) \<in> child_links h
        \<longrightarrow> i = j \<and> p = q"
    by (unfold heap_inv_def, elim conjE)
  ultimately show ?thesis by blast
qed

lemma heap_edges_parent: "heap_inv h \<Longrightarrow> c < length h \<Longrightarrow> c \<noteq> 0 \<Longrightarrow> \<exists>i. (i, c) \<in> heap_edges h"
proof -
  assume inv: "heap_inv h" and c: "c < length h" "c \<noteq> 0"
  from inv have "\<forall>c < length h. c \<noteq> 0 \<longrightarrow> (\<exists>i p. (i, p, c) \<in> child_links h)"
    by (unfold heap_inv_def, elim conjE)
  with c show ?thesis
    unfolding heap_edges_def by blast
qed

lemma heap_inv_exceptions:
  "heap_inv h \<Longrightarrow> i < length h \<Longrightarrow> hExceptions (h ! i) \<noteq> [] \<Longrightarrow> hIsEndpoint (h ! i)"
proof -
  assume inv: "heap_inv h" and i: "i < length h" "hExceptions (h ! i) \<noteq> []"
  from inv have "\<forall>i < length h. hExceptions (h ! i) \<noteq> [] \<longrightarrow> hIsEndpoint (h ! i)"
    by (unfold heap_inv_def, elim conjE)
  with i show ?thesis by blast
qed

text \<open>
  C10: in every store reached by insertions into a fresh root, the root is not an
  endpoint, every node with exceptions is an endpoint, and the child pointers form a
  finite tree: they are acyclic and finitely many, stay inside the store and never
  point to the root, no node has two parents, and every node but the root has one.
\<close>

theorem reachable_trie_invariants:
  assumes "trie_heap h"
  shows "\<not> hIsEndpoint (h ! 0) \<and>
         (\<forall>i < length h. hExceptions (h ! i) \<noteq> [] \<longrightarrow> hIsEndpoint (h ! i)) \<and>
         acyclic (heap_edges h) \<and> finite (heap_edges h) \<and>
         (\<forall>i c. (i, c) \<in> heap_edges h \<longrightarrow> i < length h \<and> c < length h \<and> c \<noteq> 0) \<and>
         (\<forall>i j c. (i, c) \<in> heap_edges h \<and> (j, c) \<in> heap_edges h \<longrightarrow> i = j) \<and>
         (\<forall>c < length h. c \<noteq> 0 \<longrightarrow> (\<exists>i. (i, c) \<in> heap_edges h))"
proof -
  from trie_heap_inv [OF assms] have inv: "heap_inv h" and root: "\<not> hIsEndpoint (h ! 0)"
    by simp_all
  have "\<forall>i c. (i, c) \<in> heap_edges h \<longrightarrow> i < length h \<and> c < length h \<and> c \<noteq> 0"
  proof (intro allI impI)
    fix i c
    assume "(i, c) \<in> heap_edges h"
    with heap_edges_bounded [OF inv, of i c] have "i < c \<and> c < length h" by simp
    then show "i < length h \<and> c < length h \<and> c \<noteq> 0" by simp
  qed
  moreover have "\<forall>i j c. (i, c) \<in> heap_edges h \<and> (j, c) \<in> heap_edges h \<longrightarrow> i = j"
    using heap_edges_single_parent [OF inv] by blast
  moreover have "\<forall>c < length h. c \<noteq> 0 \<longrightarrow> (\<exists>i. (i, c) \<in> heap_edges h)"
    using heap_edges_parent [OF inv] by blast
  moreover have "\<forall>i < length h. hExceptions (h ! i) \<noteq> [] \<longrightarrow> hIsEndpoint (h ! i)"
    using heap_inv_exceptions [OF inv] by blast
  ultimately show ?thesis
    using root heap_inv_acyclic [OF inv] heap_edges_finite [OF inv] by (intro conjI)
qed

lemma sample_heap_built: "h_InsertDomain [hNewNode] 0 ''a.com'' [''x''] = sample_heap"
  by (simp add: h_InsertDomain_def ReverseDomainParts_def lower_char_def hNewNode_def sample_heap_def)

theorem reachable_trie_invariants_witness:
  "trie_heap sample_heap \<and> \<not> hIsEndpoint (sample_heap ! 0) \<and> acyclic (heap_edges sample_heap) \<and>
   finite (heap_edges sample_heap)"
proof -
  have r: "trie_heap sample_heap"
    using trie_heap.insertion [OF trie_heap.fresh_root, of "''a.com''" "[''x'']"]
    by (simp only: sample_heap_built)
  note m = reachable_trie_invariants [OF r]
  show ?thesis
    by (intro conjI r m [THEN conjunct1] m [THEN conjunct2, THEN conjunct2, THEN conjunct1]
          m [THEN conjunct2, THEN conjunct2, THEN conjunct2, THEN conjunct1])
qed


section \<open>The store holds the trie of the functional model\<close>

text \<open>
  The two descriptions of \<open>InsertDomain\<close> agree: an insertion into the store changes
  only addresses of the trie it descends and addresses it allocates, and the node it
  started from then represents the value \<open>insert_parts\<close> returns.  So the trie value
  used for lookups, enumeration and the list operations is the content of the store
  the program mutates.
\<close>

lemma repr_bounded:
  "repr h a t F \<Longrightarrow> F \<subseteq> {..<length h}"
  "repr_children h cs ts F \<Longrightarrow> F \<subseteq> {..<length h}"
  by (induction rule: repr_repr_children.inducts) auto

lemma repr_frame:
  "repr h a t F \<Longrightarrow> (\<And>h'. (\<forall>i \<in> F. h' ! i = h ! i) \<Longrightarrow> length h \<le> length h' \<Longrightarrow> repr h' a t F)"
  "repr_children h cs ts F \<Longrightarrow>
     (\<And>h'. (\<forall>i \<in> F. h' ! i = h ! i) \<Longrightarrow> length h \<le> length h' \<Longrightarrow> repr_children h' cs ts F)"
proof (induction rule: repr_repr_children.inducts)
  case (at_node a h ch F)
  from at_node.prems have same: "h' ! a = h ! a" and rest: "\<forall>i \<in> F. h' ! i = h ! i"
    by simp_all
  from at_node.hyps(1) at_node.prems(2) have "a < length h'" by simp
  moreover from at_node.IH [OF rest at_node.prems(2)]
  have "repr_children h' (hChildren (h' ! a)) ch F" by (simp add: same)
  ultimately have "repr h' a (Node ch (hIsEndpoint (h' ! a)) (hExceptions (h' ! a))) (insert a F)"
    using at_node.hyps(3) by (rule repr_repr_children.at_node)
  then show ?case by (simp add: same)
next
  case (no_child h)
  show ?case by (rule repr_repr_children.no_child)
next
  case (next_child h c t F1 cs ts F2 p)
  from next_child.prems have "\<forall>i \<in> F1. h' ! i = h ! i" "\<forall>i \<in> F2. h' ! i = h ! i"
    by simp_all
  with next_child.IH next_child.prems(2) have "repr h' c t F1" "repr_children h' cs ts F2"
    by simp_all
  then show ?case using next_child.hyps(3) by (rule repr_repr_children.next_child)
qed

lemma repr_children_induct [consumes 1, case_names no_child next_child]:
  assumes "repr_children h cs ts F"
    and "\<And>h. P h [] [] {}"
    and "\<And>h c t F1 cs ts F2 p. repr h c t F1 \<Longrightarrow> repr_children h cs ts F2 \<Longrightarrow>
           P h cs ts F2 \<Longrightarrow> F1 \<inter> F2 = {} \<Longrightarrow> P h ((p, c) # cs) ((p, t) # ts) (F1 \<union> F2)"
  shows "P h cs ts F"
  using assms(1)
  by (rule repr_repr_children.inducts(2) [where ?P1.0 = "\<lambda>_ _ _ _. True"])
    (simp_all add: assms(2,3))

lemma repr_children_keys: "repr_children h cs ts F \<Longrightarrow> map fst ts = map fst cs"
  by (induction rule: repr_children_induct) simp_all


lemma repr_children_snoc:
  "repr_children h cs ts F2 \<Longrightarrow> repr h c t F1 \<Longrightarrow> F1 \<inter> F2 = {} \<Longrightarrow>
     repr_children h (cs @ [(p, c)]) (ts @ [(p, t)]) (F2 \<union> F1)"
proof (induction rule: repr_children_induct)
  case (no_child h)
  have "repr_children h [(p, c)] [(p, t)] (F1 \<union> {})"
    using no_child.prems(1) repr_repr_children.no_child by (rule next_child) simp
  then show ?case by simp
next
  case (next_child h c' t' F1' cs ts F2' q)
  from next_child.prems have "F1 \<inter> F2' = {}" by blast
  with next_child.IH next_child.prems(1)
  have tail: "repr_children h (cs @ [(p, c)]) (ts @ [(p, t)]) (F2' \<union> F1)" by simp
  from next_child.prems(2) next_child.hyps(3) have "F1' \<inter> (F2' \<union> F1) = {}" by blast
  with next_child.hyps(1) tail
  have "repr_children h ((q, c') # (cs @ [(p, c)])) ((q, t') # (ts @ [(p, t)])) (F1' \<union> (F2' \<union> F1))"
    by (rule repr_repr_children.next_child)
  then show ?case by (simp add: Un_assoc)
qed

lemma repr_children_lookup:
  "repr_children h cs ts F \<Longrightarrow> map_of cs p = Some child \<Longrightarrow>
     \<exists>t Fc Fr. map_of ts p = Some t \<and> repr h child t Fc \<and> F = Fc \<union> Fr \<and> Fc \<inter> Fr = {} \<and>
       (\<forall>h' t' F'. repr h' child t' F' \<longrightarrow> F' \<inter> Fr = {} \<longrightarrow> (\<forall>i \<in> Fr. h' ! i = h ! i) \<longrightarrow>
          length h \<le> length h' \<longrightarrow>
          repr_children h' cs (AList.update p t' ts) (F' \<union> Fr))"
proof (induction rule: repr_children_induct)
  case (no_child h)
  then show ?case by simp
next
  case (next_child h c t F1 cs ts F2 q)
  show ?case
  proof (cases "q = p")
    case True
    with next_child.prems have c: "c = child" by simp
    have upd: "repr_children h' ((q, c) # cs) (AList.update p t' ((q, t) # ts)) (F' \<union> F2)"
      if r: "repr h' child t' F'" and d: "F' \<inter> F2 = {}" and s: "\<forall>i \<in> F2. h' ! i = h ! i"
        and l: "length h \<le> length h'" for h' t' F'
    proof -
      from repr_frame(2) [OF next_child.hyps(2) s l] have "repr_children h' cs ts F2" .
      with r have "repr_children h' ((p, child) # cs) ((p, t') # ts) (F' \<union> F2)"
        using d by (rule repr_repr_children.next_child)
      then show ?thesis by (simp add: True c)
    qed
    have "map_of ((q, t) # ts) p = Some t" by (simp add: True)
    moreover have "repr h child t F1" using next_child.hyps(1) by (simp add: c)
    moreover have "F1 \<union> F2 = F1 \<union> F2" ..
    ultimately show ?thesis using next_child.hyps(3) upd by blast
  next
    case False
    with next_child.prems have "map_of cs p = Some child" by simp
    from next_child.IH [OF this] obtain t0 Fc Fr0 where
      look: "map_of ts p = Some t0" and rc: "repr h child t0 Fc" and F2: "F2 = Fc \<union> Fr0"
      and dis: "Fc \<inter> Fr0 = {}"
      and upd0: "\<And>h' t' F'. repr h' child t' F' \<Longrightarrow> F' \<inter> Fr0 = {} \<Longrightarrow>
         (\<forall>i \<in> Fr0. h' ! i = h ! i) \<Longrightarrow> length h \<le> length h' \<Longrightarrow>
         repr_children h' cs (AList.update p t' ts) (F' \<union> Fr0)"
      by blast
    have upd: "repr_children h' ((q, c) # cs) (AList.update p t' ((q, t) # ts)) (F' \<union> (F1 \<union> Fr0))"
      if r: "repr h' child t' F'" and d: "F' \<inter> (F1 \<union> Fr0) = {}"
        and s: "\<forall>i \<in> F1 \<union> Fr0. h' ! i = h ! i" and l: "length h \<le> length h'" for h' t' F'
    proof -
      from s have s1: "\<forall>i \<in> F1. h' ! i = h ! i" and s0: "\<forall>i \<in> Fr0. h' ! i = h ! i" by simp_all
      from d have d0: "F' \<inter> Fr0 = {}" by blast
      from repr_frame(1) [OF next_child.hyps(1) s1 l] have head: "repr h' c t F1" .
      from upd0 [OF r d0 s0 l] have tail: "repr_children h' cs (AList.update p t' ts) (F' \<union> Fr0)" .
      from d next_child.hyps(3) F2 have "F1 \<inter> (F' \<union> Fr0) = {}" by blast
      with head tail
      have "repr_children h' ((q, c) # cs) ((q, t) # AList.update p t' ts) (F1 \<union> (F' \<union> Fr0))"
        by (rule repr_repr_children.next_child)
      moreover have "F1 \<union> (F' \<union> Fr0) = F' \<union> (F1 \<union> Fr0)" by blast
      ultimately show ?thesis using False by simp
    qed
    have "map_of ((q, t) # ts) p = Some t0" using False look by simp
    moreover have "F1 \<union> F2 = Fc \<union> (F1 \<union> Fr0)" using F2 by blast
    moreover have "Fc \<inter> (F1 \<union> Fr0) = {}" using dis next_child.hyps(3) F2 by blast
    ultimately show ?thesis using rc upd by blast
  qed
qed


lemma repr_node:
  assumes "repr h cur t F"
  obtains ch Fc where "t = Node ch (hIsEndpoint (h ! cur)) (hExceptions (h ! cur))"
    and "cur < length h" and "repr_children h (hChildren (h ! cur)) ch Fc"
    and "cur \<notin> Fc" and "F = insert cur Fc"
  using assms by (cases rule: repr.cases) blast

lemma repr_insert_parts:
  "repr h cur t F \<Longrightarrow>
     \<exists>F'. repr (h_insert_parts h cur ps ex) cur (insert_parts t ps ex) F' \<and>
          F' \<subseteq> F \<union> {length h..} \<and>
          (\<forall>i < length h. i \<notin> F \<longrightarrow> h_insert_parts h cur ps ex ! i = h ! i) \<and>
          length h \<le> length (h_insert_parts h cur ps ex)"
proof (induction ps arbitrary: h cur t F)
  case Nil
  from Nil.prems obtain ch Fc where
    t: "t = Node ch (hIsEndpoint (h ! cur)) (hExceptions (h ! cur))"
    and lt: "cur < length h" and kids: "repr_children h (hChildren (h ! cur)) ch Fc"
    and fresh: "cur \<notin> Fc" and F: "F = insert cur Fc"
    by (rule repr_node)
  define n' where "n' = (h ! cur)
    \<lparr>hIsEndpoint := True, hExceptions := add_exceptions (hExceptions (h ! cur)) ex\<rparr>"
  define h' where "h' = h[cur := n']"
  have hp: "h_insert_parts h cur [] ex = h'" by (simp add: h'_def n'_def)
  have at: "h' ! cur = n'" using lt by (simp add: h'_def)
  have len: "length h' = length h" by (simp add: h'_def)
  have same: "\<forall>i \<in> Fc. h' ! i = h ! i"
  proof
    fix i assume "i \<in> Fc"
    with fresh have "i \<noteq> cur" by auto
    then show "h' ! i = h ! i" by (simp add: h'_def)
  qed
  from repr_frame(2) [OF kids same] len
  have "repr_children h' (hChildren (h' ! cur)) ch Fc" by (simp add: at n'_def)
  with lt len have "repr h' cur (Node ch (hIsEndpoint (h' ! cur)) (hExceptions (h' ! cur)))
      (insert cur Fc)"
    using fresh by (intro at_node) simp_all
  then have r: "repr h' cur (insert_parts t [] ex) F" by (simp add: t at n'_def F)
  have fr: "\<forall>i < length h. i \<notin> F \<longrightarrow> h' ! i = h ! i" by (auto simp: h'_def F)
  from r fr len show ?case unfolding hp by (intro exI [of _ F]) simp
next
  case (Cons p ps)
  from Cons.prems obtain ch Fc where
    t: "t = Node ch (hIsEndpoint (h ! cur)) (hExceptions (h ! cur))"
    and lt: "cur < length h" and kids: "repr_children h (hChildren (h ! cur)) ch Fc"
    and fresh: "cur \<notin> Fc" and F: "F = insert cur Fc"
    by (rule repr_node)
  from repr_bounded(2) [OF kids] have bound: "Fc \<subseteq> {..<length h}" .
  then have low: "i < length h" if "i \<in> Fc" for i using that by auto
  show ?case
  proof (cases "map_of (hChildren (h ! cur)) p")
    case None
    from repr_children_keys [OF kids] have "fst ` set ch = fst ` set (hChildren (h ! cur))"
      by (metis set_map)
    with None have none: "map_of ch p = None" by (simp add: map_of_eq_None_iff)
    define n' where "n' = (h ! cur)
      \<lparr>hChildren := AList.update p (length h) (hChildren (h ! cur))\<rparr>"
    define h1 where "h1 = h[cur := n'] @ [hNewNode]"
    define h2 where "h2 = h_insert_parts h1 (length h) ps ex"
    define tnew where "tnew = insert_parts NewNode ps ex"
    have hp: "h_insert_parts h cur (p # ps) ex = h2"
      by (simp add: None h2_def h1_def n'_def)
    have len1: "length h1 = Suc (length h)" by (simp add: h1_def)
    have new_at: "h1 ! length h = hNewNode" by (simp add: h1_def nth_append)
    have "repr h1 (length h) (Node [] (hIsEndpoint (h1 ! length h)) (hExceptions (h1 ! length h)))
        (insert (length h) {})"
      by (intro at_node) (simp_all add: len1 new_at hNewNode_def no_child)
    then have new: "repr h1 (length h) NewNode {length h}"
      by (simp add: new_at hNewNode_def NewNode_def)
    from Cons.IH [OF new] obtain F0 where
      r0: "repr h2 (length h) tnew F0" and sub0: "F0 \<subseteq> {length h} \<union> {length h1..}"
      and fr0: "\<forall>i < length h1. i \<notin> {length h} \<longrightarrow> h2 ! i = h1 ! i"
      and len0: "length h1 \<le> length h2"
      unfolding h2_def tnew_def by blast
    have old: "h2 ! i = h1 ! i" if "i < length h" for i
      using fr0 that len1 by simp
    have at1: "h1 ! cur = n'" using lt by (simp add: h1_def nth_append)
    have at: "h2 ! cur = n'" using old [OF lt] at1 by simp
    have same1: "h1 ! i = h ! i" if "i < length h" "i \<noteq> cur" for i
      using that by (simp add: h1_def nth_append)
    have same: "\<forall>i \<in> Fc. h2 ! i = h ! i"
    proof
      fix i assume i: "i \<in> Fc"
      with bound have "i < length h" by auto
      moreover from i fresh have "i \<noteq> cur" by auto
      ultimately show "h2 ! i = h ! i" using old same1 by simp
    qed
    have len: "length h \<le> length h2" using len0 len1 by simp
    from repr_frame(2) [OF kids same len]
    have kids2: "repr_children h2 (hChildren (h ! cur)) ch Fc" .
    have high: "length h \<le> i" if "i \<in> F0" for i using that sub0 len1 by auto
    have dis: "F0 \<inter> Fc = {}" using low high by fastforce
    from repr_children_snoc [OF kids2 r0 dis]
    have "repr_children h2 (hChildren (h ! cur) @ [(p, length h)]) (ch @ [(p, tnew)]) (Fc \<union> F0)" .
    then have kids': "repr_children h2 (hChildren (h2 ! cur)) (ch @ [(p, tnew)]) (Fc \<union> F0)"
      by (simp add: at n'_def update_absent [OF None])
    have fresh': "cur \<notin> Fc \<union> F0" using fresh lt high by fastforce
    from lt len have lt2: "cur < length h2" by simp
    from lt2 kids' fresh'
    have "repr h2 cur (Node (ch @ [(p, tnew)]) (hIsEndpoint (h2 ! cur)) (hExceptions (h2 ! cur)))
        (insert cur (Fc \<union> F0))"
      by (rule at_node)
    then have r: "repr h2 cur (insert_parts t (p # ps) ex) (insert cur (Fc \<union> F0))"
      by (simp add: t none at n'_def update_absent [OF none] tnew_def)
    have sub: "insert cur (Fc \<union> F0) \<subseteq> F \<union> {length h..}" using high F by auto
    have fr: "\<forall>i < length h. i \<notin> F \<longrightarrow> h2 ! i = h ! i" using old same1 F by simp
    from r sub fr len show ?thesis unfolding hp by blast
  next
    case (Some child)
    from repr_children_lookup [OF kids Some] obtain tc Fch Fr where
      look: "map_of ch p = Some tc" and rc: "repr h child tc Fch" and Fc: "Fc = Fch \<union> Fr"
      and dis: "Fch \<inter> Fr = {}"
      and upd: "\<And>h' t' F'. repr h' child t' F' \<Longrightarrow> F' \<inter> Fr = {} \<Longrightarrow>
         (\<forall>i \<in> Fr. h' ! i = h ! i) \<Longrightarrow> length h \<le> length h' \<Longrightarrow>
         repr_children h' (hChildren (h ! cur)) (AList.update p t' ch) (F' \<union> Fr)"
      by blast
    define h2 where "h2 = h_insert_parts h child ps ex"
    define tnew where "tnew = insert_parts tc ps ex"
    have hp: "h_insert_parts h cur (p # ps) ex = h2" by (simp add: Some h2_def)
    from Cons.IH [OF rc] obtain F0 where
      r0: "repr h2 child tnew F0" and sub0: "F0 \<subseteq> Fch \<union> {length h..}"
      and fr0: "\<forall>i < length h. i \<notin> Fch \<longrightarrow> h2 ! i = h ! i"
      and len: "length h \<le> length h2"
      unfolding h2_def tnew_def by blast
    have high: "i \<in> Fch \<or> length h \<le> i" if "i \<in> F0" for i using that sub0 by auto
    have dis0: "F0 \<inter> Fr = {}"
    proof (rule ccontr)
      assume "F0 \<inter> Fr \<noteq> {}"
      then obtain i where i: "i \<in> F0" "i \<in> Fr" by blast
      from i(2) Fc have "i < length h" by (simp add: low)
      with high [OF i(1)] have "i \<in> Fch" by simp
      with i(2) dis show False by blast
    qed
    have same: "\<forall>i \<in> Fr. h2 ! i = h ! i"
    proof
      fix i assume i: "i \<in> Fr"
      with bound Fc have "i < length h" by auto
      moreover from i dis have "i \<notin> Fch" by auto
      ultimately show "h2 ! i = h ! i" using fr0 by simp
    qed
    from fresh Fc have "cur \<notin> Fch" by simp
    with fr0 lt have at: "h2 ! cur = h ! cur" by simp
    from upd [OF r0 dis0 same len]
    have kids': "repr_children h2 (hChildren (h2 ! cur)) (AList.update p tnew ch) (F0 \<union> Fr)"
      by (simp add: at)
    have fresh': "cur \<notin> F0 \<union> Fr" using fresh Fc lt high by fastforce
    from lt len have lt2: "cur < length h2" by simp
    from lt2 kids' fresh'
    have "repr h2 cur (Node (AList.update p tnew ch) (hIsEndpoint (h2 ! cur)) (hExceptions (h2 ! cur)))
        (insert cur (F0 \<union> Fr))"
      by (rule at_node)
    then have r: "repr h2 cur (insert_parts t (p # ps) ex) (insert cur (F0 \<union> Fr))"
      by (simp add: t look at tnew_def)
    have sub: "insert cur (F0 \<union> Fr) \<subseteq> F \<union> {length h..}" using high F Fc by auto
    have fr: "\<forall>i < length h. i \<notin> F \<longrightarrow> h2 ! i = h ! i" using fr0 F Fc by simp
    from r sub fr len show ?thesis unfolding hp by blast
  qed
qed

lemma repr_fresh: "repr [hNewNode] 0 NewNode {0}"
proof -
  have "repr [hNewNode] 0
      (Node [] (hIsEndpoint ([hNewNode] ! 0)) (hExceptions ([hNewNode] ! 0))) (insert 0 {})"
    by (intro at_node) (simp_all add: hNewNode_def no_child)
  then show ?thesis by (simp add: hNewNode_def NewNode_def)
qed

text \<open>
  After the same insertions into a fresh root, the root of the store represents the
  trie value; the stores concerned are exactly those of \<open>trie_heap\<close>.
\<close>

theorem store_represents_trie: "built h t \<Longrightarrow> \<exists>F. repr h 0 t F"
proof (induction rule: built.induct)
  case built_fresh
  show ?case using repr_fresh by blast
next
  case (built_insert h t domain exceptions)
  then obtain F where "repr h 0 t F" by blast
  from repr_insert_parts [OF this, of "ReverseDomainParts domain" exceptions]
  show ?case unfolding h_InsertDomain_def InsertDomain_def by blast
qed

lemma built_trie_heap: "built h t \<Longrightarrow> trie_heap h"
  by (induction rule: built.induct) (auto intro: trie_heap.intros)

lemma trie_heap_built: "trie_heap h \<Longrightarrow> \<exists>t. built h t"
  by (induction rule: trie_heap.induct) (auto intro: built.intros)
end
